theory Spec2Isabelle
  imports Main "HOL-Library.Sublist" "HOL-Library.AList"
begin

section \<open>Data model of the palette (src/lib/palette/types.ts, create.ts)\<close>

text \<open>
  The palette of \<^verbatim>\<open>createPalette\<close> is a closure over mutable variables. The model is a
  record of those variables, passed explicitly: every function below takes the palette and
  returns the palette it leaves behind, together with what it returns or throws.

  Strings are \<open>string\<close>, lists of code units below 256; \<^verbatim>\<open>startsWith\<close> is \<open>prefix\<close> and
  \<^verbatim>\<open>slice(n)\<close> is \<open>drop n\<close>.
  Items are values: the candidates handed to \<^verbatim>\<open>registerItem\<close> are taken to be objects of
  their own, not aliases of objects already registered. Caller hooks are functions of their
  arguments that return an outcome and do not touch the palette; an \<^verbatim>\<open>await\<close> is a plain
  call, so one resolution runs to its end before anything else does.
\<close>

datatype hyper_item_type = ACTIONABLE | NAVIGABLE | SEARCHABLE

text \<open>\<^verbatim>\<open>ACTIONABLE_CLOSE_ON\<close> and \<^verbatim>\<open>NAVIGABLE_CLOSE_ON\<close> (the latter has no \<open>ON_CANCEL\<close>).\<close>

datatype close_on = ALWAYS | NEVER | ON_TRIGGER | ON_CANCEL | ON_SUCCESS | ON_ERROR

text \<open>
  \<^verbatim>\<open>NO_RESULTS_MODE\<close>, with \<open>ALL_ITEMS\<close> for \<^verbatim>\<open>ALL\<close> (a reserved word of the logic's
  syntax). TypeScript admits the three values only; \<open>OTHER_MODE v\<close> is any other
  run-time value \<open>v\<close>, which the \<^verbatim>\<open>default\<close> branch of the switch is there for.
\<close>

datatype no_results_mode = ALL_ITEMS | HISTORY | NONE | OTHER_MODE string

datatype sort_mode = SORTED | REVERSED | UNSORTED

datatype palette_close_action = NO_ACTION | RESET | KEEP_CLOSE | RESET_CLOSE

text \<open>
  What a function of the palette throws: the palette's own \<^verbatim>\<open>HyperPaletteError\<close> with its
  message, the engine's \<^verbatim>\<open>TypeError\<close> on a property read of \<^verbatim>\<open>undefined\<close>, or a value
  thrown by a caller hook. \<open>DuplicatedIdError\<close> is the class of that name in the error module,
  with its message and its field \<^verbatim>\<open>id\<close>; \<^verbatim>\<open>create.ts\<close> has no \<^verbatim>\<open>new DuplicatedIdError\<close>, every
  \<^verbatim>\<open>throw\<close> of it constructs a \<^verbatim>\<open>HyperPaletteError\<close>.
\<close>

datatype error =
    HyperPaletteError string
  | DuplicatedIdError string "string option"
  | TypeError string
  | Thrown string

datatype item_request_source = Submit | Shortcut string | Click

text \<open>\<^verbatim>\<open>onRequest\<close> resolves to \<^verbatim>\<open>false\<close>, resolves to another value, or rejects.\<close>

datatype request_outcome = Request_false | Request_value string | Request_throws error

datatype hook_outcome = Returns | Throws error

record hyper_item =
  itype :: hyper_item_type
  item_id :: string
  name :: string
  hcache_sort :: string
  shortcut :: "string list option"
  closeOn :: "close_on option"
  onRequest :: "item_request_source \<Rightarrow> request_outcome"
  onAction :: "item_request_source \<Rightarrow> string \<Rightarrow> hook_outcome"
  onError :: "(error \<Rightarrow> item_request_source \<Rightarrow> hook_outcome) option"
  onUnregister :: bool
  external :: bool
  url :: string

text \<open>
  \<open>shortcut = None\<close> is an item without the key \<^verbatim>\<open>shortcut\<close> (\<^verbatim>\<open>'shortcut' in item\<close> is
  false); \<open>onUnregister\<close> tells whether the hook is defined. Calls of the hooks whose result
  the palette drops are recorded in the palette's \<open>calls\<close>.
\<close>

datatype hook_call =
    Called_onError string error item_request_source
  | Called_mode_onError string error item_request_source
  | Called_onUnregister string

record mode_config =
  cfg_type :: hyper_item_type
  cfg_prefix :: string
  emptyMode :: no_results_mode
  sortMode :: sort_mode
  cfg_shortcut :: "string list"
  cfg_closeOn :: close_on
  onNavigation :: "(hyper_item \<Rightarrow> hook_outcome) option"
  onExternal :: "string \<Rightarrow> hook_outcome"
  onLocal :: "string \<Rightarrow> hook_outcome"
  cfg_onError :: "(error \<Rightarrow> item_request_source \<Rightarrow> hook_outcome) option"

datatype sort_type = Sort_search | Sort_keys | Sort_custom

text \<open>
  \<^verbatim>\<open>PaletteModeSort\<close>: \<open>sorter\<close> sorts in place, so here it returns the sorted list. A
  \<open>Sort_custom\<close> strategy has no mapper; its \<open>mapper\<close> field is never read.
\<close>

record palette_mode_sort =
  sort_type :: sort_type
  mapper :: "hyper_item \<Rightarrow> string"
  sorter :: "hyper_item list \<Rightarrow> hyper_item list"

text \<open>
  Modelled from the spec: the \<^verbatim>\<open>Searcher\<close> class lives in \<^verbatim>\<open>lib/internal/helpers\<close>, which is
  not part of the sources at hand. The spec gives its contract: \<^verbatim>\<open>add(item)\<close>,
  \<^verbatim>\<open>remove(item)\<close> and \<^verbatim>\<open>search(query)\<close>, a ranked sequence of the indexed items. The
  model keeps the indexed items in the order they were added; \<open>ranking\<close> is the black-box
  scoring, a function of the indexed items and the query.
\<close>

record item_searcher =
  indexed :: "hyper_item list"
  ranking :: "hyper_item list \<Rightarrow> string \<Rightarrow> hyper_item list"

definition searcher_add :: "hyper_item \<Rightarrow> item_searcher \<Rightarrow> item_searcher" where
  "searcher_add x sr = sr\<lparr>indexed := indexed sr @ [x]\<rparr>"

definition searcher_remove :: "hyper_item \<Rightarrow> item_searcher \<Rightarrow> item_searcher" where
  "searcher_remove x sr = sr\<lparr>indexed := remove1 x (indexed sr)\<rparr>"

definition searcher_search :: "item_searcher \<Rightarrow> string \<Rightarrow> hyper_item list" where
  "searcher_search sr pattern = ranking sr (indexed sr) pattern"

text \<open>
  \<^verbatim>\<open>PaletteModeState\<close>. \<open>items\<close> is the array behind the observable \<^verbatim>\<open>items\<close>; an
  assignment past its end leaves holes in a JavaScript array, so its entries are optional.
\<close>

record palette_mode_state =
  mode :: string
  sort_cfg :: palette_mode_sort
  config :: mode_config
  items :: "hyper_item option list"
  results :: "hyper_item list"
  history :: "string list"
  searcher :: item_searcher
  current :: "hyper_item option"
  rawAll :: "hyper_item list"
  rawAllSorted :: "hyper_item list"
  lastInput :: string

record palette_selected =
  el :: "nat option"
  sel_id :: "string option"
  idx :: int

record palette_error =
  err_error :: error
  err_item :: hyper_item
  err_source :: item_request_source
  err_mode :: string

text \<open>
  The variables of the closure. \<open>modes\<close> is the \<^verbatim>\<open>Map\<close> \<^verbatim>\<open>_modes\<close> in insertion order.
  \<^verbatim>\<open>_mode_state\<close> is a reference to one of the map's values: \<open>mode_state\<close> is the key of
  that value. \<open>debounce_id\<close> is the pending timer of \<^verbatim>\<open>on_input\<close>, holding the query it
  will search. \<open>shorcuts_cleanup\<close> maps an item id to the shortcuts bound for it.
\<close>

record palette =
  modes :: "(string \<times> palette_mode_state) list"
  mode_state :: string
  is_open :: bool
  searchText :: string
  paletteMode :: string
  closeAction :: palette_close_action
  debounce :: int
  error_slot :: "palette_error option"
  resetOnOpen :: bool
  selected :: palette_selected
  input_el :: "string option"
  shorcuts_cleanup :: "(string \<times> string list) list"
  debounce_id :: "string option"
  calls :: "hook_call list"

definition get_mode :: "palette \<Rightarrow> string \<Rightarrow> palette_mode_state option" where
  "get_mode s k = map_of (modes s) k"

definition active :: "palette \<Rightarrow> palette_mode_state option" where
  "active s = get_mode s (mode_state s)"

definition upd_mode ::
  "string \<Rightarrow> (palette_mode_state \<Rightarrow> palette_mode_state) \<Rightarrow> palette \<Rightarrow> palette" where
  "upd_mode k f s = s\<lparr>modes := AList.map_entry k f (modes s)\<rparr>"

definition upd_active :: "(palette_mode_state \<Rightarrow> palette_mode_state) \<Rightarrow> palette \<Rightarrow> palette" where
  "upd_active f s = upd_mode (mode_state s) f s"

definition read_of_undefined :: error where
  "read_of_undefined = TypeError ''Cannot read properties of undefined''"

section \<open>JavaScript arithmetic and arrays\<close>

text \<open>\<^verbatim>\<open>a % b\<close> for a positive \<open>b\<close>: the remainder has the sign of the dividend.\<close>

definition js_rem :: "int \<Rightarrow> int \<Rightarrow> int" where
  "js_rem a b = (if a < 0 then - ((- a) mod b) else a mod b)"

text \<open>\<^verbatim>\<open>xs[i]\<close>: \<^verbatim>\<open>undefined\<close> out of range.\<close>

definition js_index :: "'a list \<Rightarrow> int \<Rightarrow> 'a option" where
  "js_index xs i = (if 0 \<le> i \<and> i < int (length xs) then Some (xs ! nat i) else None)"

text \<open>\<^verbatim>\<open>xs[i] = v\<close> on an array with holes: past the end the array grows.\<close>

definition js_assign :: "'a option list \<Rightarrow> nat \<Rightarrow> 'a \<Rightarrow> 'a option list" where
  "js_assign xs i v =
     (if i < length xs then xs[i := Some v]
      else xs @ replicate (i - length xs) None @ [Some v])"

text \<open>\<^verbatim>\<open>xs.splice(i, 1)\<close>: nothing happens past the end.\<close>

definition js_splice1 :: "'a list \<Rightarrow> nat \<Rightarrow> 'a list" where
  "js_splice1 xs i = take i xs @ drop (Suc i) xs"

section \<open>Selection cursor\<close>

definition select_next_result :: "palette \<Rightarrow> palette \<times> error option" where
  "select_next_result s =
     (case active s of
        None \<Rightarrow> (s, Some read_of_undefined)
      | Some m \<Rightarrow>
          if length (results m) = 0 then (s, None)
          else
            let selectedIdx = idx (selected s) in
            if selectedIdx = - 1 then
              (s\<lparr>selected := (selected s)\<lparr>idx := 0, sel_id := Some (item_id (results m ! 0))\<rparr>\<rparr>, None)
            else
              let newIdx = js_rem (selectedIdx + 1) (int (length (results m))) in
              (case js_index (results m) newIdx of
                 None \<Rightarrow> (s\<lparr>selected := (selected s)\<lparr>idx := newIdx\<rparr>\<rparr>, Some read_of_undefined)
               | Some it \<Rightarrow>
                   (s\<lparr>selected := (selected s)\<lparr>idx := newIdx, sel_id := Some (item_id it)\<rparr>\<rparr>, None)))"

definition select_previous_result :: "palette \<Rightarrow> palette \<times> error option" where
  "select_previous_result s =
     (case active s of
        None \<Rightarrow> (s, Some read_of_undefined)
      | Some m \<Rightarrow>
          if length (results m) = 0 then (s, None)
          else
            let selectedIdx = idx (selected s) in
            if selectedIdx = - 1 then
              (s\<lparr>selected := (selected s)\<lparr>idx := int (length (results m)) - 1,
                   sel_id := Some (item_id (results m ! (length (results m) - 1)))\<rparr>\<rparr>, None)
            else
              let newIdx = js_rem (selectedIdx - 1 + int (length (results m))) (int (length (results m))) in
              (case js_index (results m) newIdx of
                 None \<Rightarrow> (s\<lparr>selected := (selected s)\<lparr>idx := newIdx\<rparr>\<rparr>, Some read_of_undefined)
               | Some it \<Rightarrow>
                   (s\<lparr>selected := (selected s)\<lparr>idx := newIdx, sel_id := Some (item_id it)\<rparr>\<rparr>, None)))"

section \<open>Search pipeline\<close>

definition set_empty_results :: "palette \<Rightarrow> palette \<times> error option" where
  "set_empty_results s =
     (case active s of
        None \<Rightarrow> (s, Some read_of_undefined)
      | Some m \<Rightarrow>
          ((upd_active (\<lambda>m. m\<lparr>results := []\<rparr>) s)
             \<lparr>selected := \<lparr>el = None, sel_id = None, idx = - 1\<rparr>\<rparr>, None))"

text \<open>
  The \<open>HISTORY\<close> branch of \<^verbatim>\<open>_search_and_update\<close>: for every id of the history, the first
  item of \<^verbatim>\<open>rawAll\<close> with that id, if there is one.
\<close>

fun history_results :: "string list \<Rightarrow> hyper_item list \<Rightarrow> hyper_item list" where
  "history_results [] raw = []"
| "history_results (i # ids) raw =
     (case find (\<lambda>item. item_id item = i) raw of
        Some item \<Rightarrow> item # history_results ids raw
      | None \<Rightarrow> history_results ids raw)"

definition empty_query_results :: "palette_mode_state \<Rightarrow> error + hyper_item list" where
  "empty_query_results m =
     (case emptyMode (config m) of
        ALL_ITEMS \<Rightarrow> Inr (rawAllSorted m)
      | HISTORY \<Rightarrow> Inr (history_results (history m) (rawAll m))
      | NONE \<Rightarrow> Inr []
      | OTHER_MODE v \<Rightarrow> Inl (HyperPaletteError (''Invalid empty mode: '' @ v)))"

definition select_first :: "hyper_item list \<Rightarrow> palette \<Rightarrow> palette" where
  "select_first res s =
     (if length res = 0 then s\<lparr>selected := (selected s)\<lparr>sel_id := None, idx := - 1\<rparr>\<rparr>
      else s\<lparr>selected := (selected s)\<lparr>sel_id := Some (item_id (res ! 0)), idx := 0\<rparr>\<rparr>)"

definition search_and_update :: "string \<Rightarrow> palette \<Rightarrow> palette \<times> error option" where
  "search_and_update pattern s =
     (case active s of
        None \<Rightarrow> (s, Some read_of_undefined)
      | Some m \<Rightarrow>
          (case (if pattern = [] then empty_query_results m
                 else Inr (sorter (sort_cfg m) (searcher_search (searcher m) pattern))) of
             Inl e \<Rightarrow> (s, Some e)
           | Inr res \<Rightarrow> (select_first res (upd_active (\<lambda>m. m\<lparr>results := res\<rparr>) s), None)))"

definition update_results :: "palette \<Rightarrow> palette \<times> error option" where
  "update_results s =
     (case active s of
        None \<Rightarrow> (s, Some read_of_undefined)
      | Some m \<Rightarrow> search_and_update (drop (length (cfg_prefix (config m))) (searchText s)) s)"

section \<open>Close-action resolution\<close>

definition resolve_close_action :: "palette \<Rightarrow> palette \<times> error option" where
  "resolve_close_action s =
     (let should_reset = (closeAction s = RESET \<or> closeAction s = RESET_CLOSE);
          should_close = (closeAction s = KEEP_CLOSE \<or> closeAction s = RESET_CLOSE)
      in case active s of
           None \<Rightarrow> (s, Some read_of_undefined)
         | Some m \<Rightarrow>
             let s1 = upd_active (\<lambda>m. m\<lparr>lastInput := searchText s\<rparr>) s;
                 input_text = cfg_prefix (config m)
             in case (if should_reset
                      then search_and_update []
                             (s1\<lparr>input_el := map_option (\<lambda>_. input_text) (input_el s1),
                                 searchText := input_text\<rparr>)
                      else (s1, None)) of
                  (s2, Some e) \<Rightarrow> (s2, Some e)
                | (s2, None) \<Rightarrow>
                    (if should_close \<and> \<not> is_open s2 then s2\<lparr>is_open := True\<rparr> else s2, None))"

definition close_palette :: "palette \<Rightarrow> palette \<times> error option" where
  "close_palette s =
     (if \<not> is_open s then (s, None) else resolve_close_action (s\<lparr>is_open := False\<rparr>))"

section \<open>Action resolution\<close>

definition set_current :: "hyper_item option \<Rightarrow> palette \<Rightarrow> palette" where
  "set_current c s = upd_active (\<lambda>m. m\<lparr>current := c\<rparr>) s"

text \<open>The \<^verbatim>\<open>finally\<close> block of both resolvers.\<close>

definition push_history :: "string \<Rightarrow> palette \<Rightarrow> palette" where
  "push_history i s = upd_active (\<lambda>m. m\<lparr>history := i # history m\<rparr>) s"

definition set_error :: "error \<Rightarrow> hyper_item \<Rightarrow> item_request_source \<Rightarrow> palette \<Rightarrow> palette" where
  "set_error e item source s =
     s\<lparr>error_slot := map_option
          (\<lambda>m. \<lparr>err_error = e, err_item = item, err_source = source, err_mode = mode m\<rparr>)
          (active s)\<rparr>"

text \<open>
  The head of both resolvers: the item becomes the current one of the active mode, and with
  \<open>ON_TRIGGER\<close> the close action is resolved before any hook runs.
\<close>

definition on_trigger :: "hyper_item \<Rightarrow> palette \<Rightarrow> palette \<times> error option" where
  "on_trigger item s =
     (if closeOn item = Some ON_TRIGGER
      then resolve_close_action (set_current (Some item) s)
      else (set_current (Some item) s, None))"

text \<open>
  The call of \<^verbatim>\<open>item.onError\<close>, and of \<^verbatim>\<open>config.onError\<close> for a navigable item, when the
  hook is there. The palette does not wait for what the hook returns: the call is recorded,
  and only an error the hook throws while it is being called reaches the palette.
\<close>

definition notify_onError :: "error \<Rightarrow> hyper_item \<Rightarrow> item_request_source \<Rightarrow> palette \<Rightarrow> palette" where
  "notify_onError e item source s =
     (case onError item of
        None \<Rightarrow> s
      | Some h \<Rightarrow> s\<lparr>calls := calls s @ [Called_onError (item_id item) e source]\<rparr>)"

definition notify_mode_onError ::
  "mode_config \<Rightarrow> error \<Rightarrow> hyper_item \<Rightarrow> item_request_source \<Rightarrow> palette \<Rightarrow> palette" where
  "notify_mode_onError cfg e item source s =
     (case cfg_onError cfg of
        None \<Rightarrow> s
      | Some h \<Rightarrow> s\<lparr>calls := calls s @ [Called_mode_onError (item_id item) e source]\<rparr>)"

text \<open>What follows the \<^verbatim>\<open>try\<close> statement of \<^verbatim>\<open>_resolve_actionable\<close>.\<close>

definition actionable_success_close :: "hyper_item \<Rightarrow> palette \<Rightarrow> palette \<times> error option" where
  "actionable_success_close item s =
     (case (if closeOn item = Some ON_SUCCESS \<or> closeOn item = Some ALWAYS
            then resolve_close_action s else (s, None)) of
        (s', Some e) \<Rightarrow> (s', Some e)
      | (s', None) \<Rightarrow> (set_current None s', None))"

text \<open>
  The \<^verbatim>\<open>catch\<close> block of \<^verbatim>\<open>_resolve_actionable\<close> with the \<^verbatim>\<open>finally\<close> block behind it:
  on the early return, and when \<^verbatim>\<open>onError\<close> or the close resolution throws, the history
  is pushed last.
\<close>

definition actionable_catch ::
  "error \<Rightarrow> hyper_item \<Rightarrow> item_request_source \<Rightarrow> palette \<Rightarrow> palette \<times> error option" where
  "actionable_catch e item source s =
     (let s3 = notify_onError e item source (set_error e item source s)
      in case (case onError item of None \<Rightarrow> Returns | Some h \<Rightarrow> h e source) of
           Throws e2 \<Rightarrow> (push_history (item_id item) s3, Some e2)
         | Returns \<Rightarrow>
             if closeOn item = Some ON_ERROR \<or> closeOn item = Some ALWAYS then
               (case resolve_close_action s3 of
                  (s4, Some e') \<Rightarrow> (push_history (item_id item) s4, Some e')
                | (s4, None) \<Rightarrow> (push_history (item_id item) (set_current None s4), None))
             else actionable_success_close item (push_history (item_id item) s3))"

definition resolve_actionable ::
  "hyper_item \<Rightarrow> item_request_source \<Rightarrow> palette \<Rightarrow> palette \<times> error option" where
  "resolve_actionable item source s =
     (case active s of
        None \<Rightarrow> (s, Some read_of_undefined)
      | Some m \<Rightarrow>
          (case on_trigger item s of
             (s1, Some e) \<Rightarrow> (s1, Some e)
           | (s1, None) \<Rightarrow>
               (case onRequest item source of
                  Request_throws e \<Rightarrow> (s1, Some e)
                | Request_false \<Rightarrow>
                    if closeOn item = Some ON_CANCEL \<or> closeOn item = Some ALWAYS then
                      (case resolve_close_action s1 of
                         (s2, Some e) \<Rightarrow> (s2, Some e)
                       | (s2, None) \<Rightarrow> (set_current None s2, None))
                    else (s1, None)
                | Request_value rarg \<Rightarrow>
                    (case onAction item source rarg of
                       Returns \<Rightarrow>
                         actionable_success_close item
                           (push_history (item_id item) (s1\<lparr>error_slot := None\<rparr>))
                     | Throws e \<Rightarrow> actionable_catch e item source s1))))"

text \<open>What follows the \<^verbatim>\<open>try\<close> statement of \<^verbatim>\<open>_resolve_navigable\<close>.\<close>

definition navigable_success_close :: "hyper_item \<Rightarrow> palette \<Rightarrow> palette \<times> error option" where
  "navigable_success_close item s =
     (if closeOn item = Some ON_SUCCESS \<or> closeOn item = Some ALWAYS then
        (case resolve_close_action s of
           (s', Some e) \<Rightarrow> (s', Some e)
         | (s', None) \<Rightarrow> (set_current None s', None))
      else (s, None))"

definition navigable_catch ::
  "mode_config \<Rightarrow> error \<Rightarrow> hyper_item \<Rightarrow> item_request_source \<Rightarrow> palette \<Rightarrow> palette \<times> error option" where
  "navigable_catch cfg e item source s =
     (let s3 = notify_mode_onError cfg e item source (set_error e item source s)
      in case (case cfg_onError cfg of None \<Rightarrow> Returns | Some h \<Rightarrow> h e source) of
           Throws e2 \<Rightarrow> (push_history (item_id item) s3, Some e2)
         | Returns \<Rightarrow>
             if closeOn item = Some ON_ERROR \<or> closeOn item = Some ALWAYS then
               (case resolve_close_action s3 of
                  (s4, Some e') \<Rightarrow> (push_history (item_id item) s4, Some e')
                | (s4, None) \<Rightarrow> (push_history (item_id item) (set_current None s4), None))
             else navigable_success_close item (push_history (item_id item) s3))"

definition navigate :: "mode_config \<Rightarrow> hyper_item \<Rightarrow> hook_outcome" where
  "navigate cfg item =
     (case onNavigation cfg of
        Some h \<Rightarrow> h item
      | None \<Rightarrow> if external item then onExternal cfg (url item) else onLocal cfg (url item))"

definition resolve_navigable ::
  "hyper_item \<Rightarrow> item_request_source \<Rightarrow> palette \<Rightarrow> palette \<times> error option" where
  "resolve_navigable item source s =
     (case active s of
        None \<Rightarrow> (s, Some read_of_undefined)
      | Some m \<Rightarrow>
          (case on_trigger item s of
             (s1, Some e) \<Rightarrow> (s1, Some e)
           | (s1, None) \<Rightarrow>
               (case navigate (config m) item of
                  Returns \<Rightarrow>
                    navigable_success_close item
                      (push_history (item_id item) (s1\<lparr>error_slot := None\<rparr>))
                | Throws e \<Rightarrow> navigable_catch (config m) e item source s1)))"

section \<open>Input handling\<close>

text \<open>
  The tail of \<^verbatim>\<open>on_input\<close>: cancel the pending timer, strip the prefix of the active mode,
  then search at once or start the timer. The \<^verbatim>\<open>console.log\<close> of the source is left out.
\<close>

definition on_input_search :: "bool \<Rightarrow> string \<Rightarrow> palette \<Rightarrow> palette \<times> error option" where
  "on_input_search force_search raw_value s =
     (case active s of
        None \<Rightarrow> (s\<lparr>debounce_id := None\<rparr>, Some read_of_undefined)
      | Some m \<Rightarrow>
          let query = drop (length (cfg_prefix (config m))) raw_value in
          if force_search then search_and_update query (s\<lparr>debounce_id := None\<rparr>)
          else (s\<lparr>debounce_id := Some query\<rparr>, None))"

text \<open>The scan of \<^verbatim>\<open>on_input\<close> over \<^verbatim>\<open>_modes.values()\<close>, in insertion order.\<close>

definition scan_modes :: "(string \<times> palette_mode_state) list \<Rightarrow> string \<Rightarrow> string option" where
  "scan_modes ms query =
     map_option (\<lambda>km. mode (snd km)) (find (\<lambda>km. prefix (cfg_prefix (config (snd km))) query) ms)"

definition on_input :: "string \<Rightarrow> palette \<Rightarrow> palette \<times> error option" where
  "on_input raw_value s0 =
     (let s = s0\<lparr>searchText := raw_value\<rparr> in
      case active s of
        None \<Rightarrow> (s, Some read_of_undefined)
      | Some m \<Rightarrow>
          let force_search = (debounce s \<le> 0);
              newInputMode =
                (if \<not> prefix (cfg_prefix (config m)) raw_value \<or> cfg_prefix (config m) = []
                 then (case scan_modes (modes s) raw_value of
                         Some k \<Rightarrow> k
                       | None \<Rightarrow> paletteMode s)
                 else paletteMode s)
          in if newInputMode \<noteq> paletteMode s then
               (case get_mode s newInputMode of
                  None \<Rightarrow> set_empty_results s
                | Some m' \<Rightarrow>
                    on_input_search True raw_value
                      (s\<lparr>mode_state := newInputMode, paletteMode := newInputMode\<rparr>))
             else on_input_search force_search raw_value s)"

section \<open>Item registration\<close>

text \<open>
  \<^verbatim>\<open>String.prototype.toLowerCase\<close>. A character of a \<open>string\<close> is a code unit below 256.
  Among these the upper-case letters are \<^verbatim>\<open>A\<close> to \<^verbatim>\<open>Z\<close> (65 to 90) and the letters from 192 to
  222 other than the multiplication sign 215; the lower-case letter of each is 32 further.
\<close>

definition upper_case_unit :: "nat \<Rightarrow> bool" where
  "upper_case_unit n \<longleftrightarrow> (65 \<le> n \<and> n \<le> 90) \<or> (192 \<le> n \<and> n \<le> 222 \<and> n \<noteq> 215)"

definition toLowerCase :: "string \<Rightarrow> string" where
  "toLowerCase str =
     map (\<lambda>c. if upper_case_unit (of_char c) then char_of (of_char c + (32 :: nat)) else c) str"

text \<open>The search loops by id: the first index whose item has the id.\<close>

fun found_idx :: "string \<Rightarrow> hyper_item list \<Rightarrow> nat option" where
  "found_idx i [] = None"
| "found_idx i (x # xs) = (if item_id x = i then Some 0 else map_option Suc (found_idx i xs))"

text \<open>The loop that splices the first item with the id out of \<^verbatim>\<open>rawAllSorted\<close>.\<close>

fun remove_by_id :: "string \<Rightarrow> hyper_item list \<Rightarrow> hyper_item list" where
  "remove_by_id i [] = []"
| "remove_by_id i (x # xs) = (if item_id x = i then xs else x # remove_by_id i xs)"

text \<open>
  \<^verbatim>\<open>_register_shortcut\<close> and \<^verbatim>\<open>_unregister_shortcut\<close>, called when the item has the key
  \<^verbatim>\<open>shortcut\<close>. The key-binding service is outside the model: every binding is taken to
  succeed, and the cleanups kept under the item's id are the shortcuts bound.
\<close>

definition register_shortcut :: "hyper_item \<Rightarrow> palette \<Rightarrow> palette" where
  "register_shortcut item s =
     (case shortcut item of
        None \<Rightarrow> s
      | Some shortcuts \<Rightarrow>
          if length shortcuts = 0 then s
          else s\<lparr>shorcuts_cleanup := AList.update (item_id item) shortcuts (shorcuts_cleanup s)\<rparr>)"

definition unregister_shortcut :: "hyper_item \<Rightarrow> palette \<Rightarrow> palette" where
  "unregister_shortcut item s =
     (case shortcut item of
        None \<Rightarrow> s
      | Some shortcuts \<Rightarrow> s\<lparr>shorcuts_cleanup := AList.delete (item_id item) (shorcuts_cleanup s)\<rparr>)"

definition call_onUnregister :: "hyper_item \<Rightarrow> palette \<Rightarrow> palette" where
  "call_onUnregister item s =
     (if onUnregister item then s\<lparr>calls := calls s @ [Called_onUnregister (item_id item)]\<rparr> else s)"

definition cache_sort :: "palette_mode_state \<Rightarrow> hyper_item \<Rightarrow> hyper_item" where
  "cache_sort m item =
     item\<lparr>hcache_sort :=
       toLowerCase (if sort_type (sort_cfg m) = Sort_custom then [] else mapper (sort_cfg m) item)\<rparr>"

definition duplicate_message :: "string \<Rightarrow> string" where
  "duplicate_message i =
     ''Item with id '' @ i @
     '' already exists in the palette, current [object Object] new [object Object]''"

text \<open>
  The loop of \<^verbatim>\<open>_register_item\<close> over the candidates. It returns the palette as the loop
  leaves it, and either the error thrown or \<^verbatim>\<open>new_items\<close> and \<^verbatim>\<open>removed_items\<close>.
\<close>

fun register_loop ::
  "string \<Rightarrow> bool \<Rightarrow> bool \<Rightarrow> hyper_item list \<Rightarrow> hyper_item list \<Rightarrow> hyper_item list \<Rightarrow> palette
   \<Rightarrow> palette \<times> (error + hyper_item list \<times> hyper_item list)" where
  "register_loop k override silent [] new_items removed_items s =
     (s, Inr (new_items, removed_items))"
| "register_loop k override silent (unsafe_item # rest) new_items removed_items s =
     (case get_mode s k of
        None \<Rightarrow> (s, Inl read_of_undefined)
      | Some m \<Rightarrow>
          let new_item = cache_sort m unsafe_item in
          (case found_idx (item_id new_item) (rawAll m) of
             None \<Rightarrow>
               register_loop k override silent rest (new_items @ [new_item]) removed_items
                 (register_shortcut new_item
                    (upd_mode k
                       (\<lambda>m. m\<lparr>rawAll := rawAll m @ [new_item],
                              items := items m @ [Some new_item],
                              searcher := searcher_add new_item (searcher m)\<rparr>) s))
           | Some i \<Rightarrow>
               if override then
                 let removed = rawAll m ! i in
                 register_loop k override silent rest new_items (removed_items @ [removed])
                   (upd_mode k
                      (\<lambda>m. m\<lparr>items := js_assign (items m) i new_item,
                             searcher := searcher_add new_item (searcher m)\<rparr>)
                      (register_shortcut new_item
                         (upd_mode k
                            (\<lambda>m. m\<lparr>searcher := searcher_remove removed (searcher m),
                                   rawAll := (rawAll m)[i := new_item]\<rparr>)
                            (call_onUnregister removed (unregister_shortcut removed s)))))
               else if silent then
                 register_loop k override silent rest new_items removed_items s
               else (s, Inl (HyperPaletteError (duplicate_message (item_id new_item))))))"

text \<open>
  \<^verbatim>\<open>defaultItemSorter\<close>: \<^verbatim>\<open>items.sort((a, b) => a.hcache.sort.localeCompare(b.hcache.sort))\<close>.
  \<^verbatim>\<open>Array.prototype.sort\<close> is stable, so with a comparator that is a total preorder its
  result is the one of the stable insertion sort below. \<^verbatim>\<open>localeCompare\<close> depends on the
  locale of the host; it is the parameter \<open>localeCompare\<close>, negative, zero or positive.
\<close>

fun insert_item :: "(string \<Rightarrow> string \<Rightarrow> int) \<Rightarrow> hyper_item \<Rightarrow> hyper_item list \<Rightarrow> hyper_item list" where
  "insert_item localeCompare a [] = [a]"
| "insert_item localeCompare a (b # bs) =
     (if localeCompare (hcache_sort a) (hcache_sort b) \<le> 0 then a # b # bs
      else b # insert_item localeCompare a bs)"

definition defaultItemSorter :: "(string \<Rightarrow> string \<Rightarrow> int) \<Rightarrow> hyper_item list \<Rightarrow> hyper_item list" where
  "defaultItemSorter localeCompare xs = foldr (insert_item localeCompare) xs []"

definition sorted_view :: "palette_mode_state \<Rightarrow> hyper_item list \<Rightarrow> hyper_item list" where
  "sorted_view m xs =
     (if sortMode (config m) \<noteq> UNSORTED then
        (let ys = sorter (sort_cfg m) xs in
         if sortMode (config m) = REVERSED then rev ys else ys)
      else xs)"

text \<open>\<^verbatim>\<open>if (_open.value && _mode_state.mode === mode) _update_results()\<close>.\<close>

definition refresh_if_active :: "string \<Rightarrow> palette \<Rightarrow> palette \<times> error option" where
  "refresh_if_active k s =
     (if is_open s then
        (case active s of
           None \<Rightarrow> (s, Some read_of_undefined)
         | Some ma \<Rightarrow> if mode ma = k then update_results s else (s, None))
      else (s, None))"

text \<open>
  \<^verbatim>\<open>_register_item\<close>: on success it returns the reversal callback, a closure over the mode
  and \<^verbatim>\<open>new_items\<close>; here it returns \<^verbatim>\<open>new_items\<close>, and \<open>reverse_register\<close> below is the
  body of the callback.
\<close>

definition register_item ::
  "string \<Rightarrow> hyper_item list \<Rightarrow> bool \<Rightarrow> bool \<Rightarrow> palette \<Rightarrow> palette \<times> (error + hyper_item list)" where
  "register_item k item override silent s =
     (case register_loop k override silent item [] [] s of
        (s1, Inl e) \<Rightarrow> (s1, Inl e)
      | (s1, Inr (new_items, removed_items)) \<Rightarrow>
          (case refresh_if_active k
                  (upd_mode k (\<lambda>m. m\<lparr>rawAllSorted := sorted_view m (rawAll m)\<rparr>) s1) of
             (s2, Some e) \<Rightarrow> (s2, Inl e)
           | (s2, None) \<Rightarrow> (s2, Inr new_items)))"

definition not_registered :: "string \<Rightarrow> error" where
  "not_registered k = HyperPaletteError (''Custom mode '' @ k @ '' was not registered'')"

text \<open>
  The helper \<^verbatim>\<open>registerItem\<close>. Its argument is one item or an array of items; one item is
  the list of that item.
\<close>

definition registerItem ::
  "string \<Rightarrow> hyper_item list \<Rightarrow> bool \<Rightarrow> bool \<Rightarrow> palette \<Rightarrow> palette \<times> (error + hyper_item list)" where
  "registerItem k item override silent s =
     (if get_mode s k = None then (s, Inl (not_registered k))
      else register_item k item override silent s)"

fun reverse_loop :: "string \<Rightarrow> hyper_item list \<Rightarrow> palette \<Rightarrow> palette" where
  "reverse_loop k [] s = s"
| "reverse_loop k (new_item # rest) s =
     (case get_mode s k of
        None \<Rightarrow> s
      | Some m \<Rightarrow>
          (case found_idx (item_id new_item) (rawAll m) of
             None \<Rightarrow> reverse_loop k rest s
           | Some i \<Rightarrow>
               reverse_loop k rest
                 (upd_mode k
                    (\<lambda>m. m\<lparr>rawAllSorted := remove_by_id (item_id new_item) (rawAllSorted m)\<rparr>)
                    (call_onUnregister new_item
                       (unregister_shortcut new_item
                          (upd_mode k
                             (\<lambda>m. m\<lparr>rawAll := js_splice1 (rawAll m) i,
                                    items := js_splice1 (items m) i,
                                    searcher := searcher_remove new_item (searcher m)\<rparr>) s))))))"

definition reverse_register :: "string \<Rightarrow> hyper_item list \<Rightarrow> palette \<Rightarrow> palette \<times> error option" where
  "reverse_register k new_items s =
     (case get_mode s k of
        None \<Rightarrow> (s, None)
      | Some m \<Rightarrow> refresh_if_active k (reverse_loop k new_items s))"

section \<open>Item unregistration\<close>

text \<open>
  \<^verbatim>\<open>ItemMatcher\<close>: an id, an item or a predicate. The item is compared with \<^verbatim>\<open>===\<close>, by
  identity. The items of the model are values and carry no identity, so the matcher by
  item is given by its identity test: \<open>Match_item same\<close>, where \<open>same y\<close> tells whether \<open>y\<close> is
  the object of the selector. The loop stops at the first hit, as it does for an id; for a
  predicate it collects every hit.
\<close>

datatype item_matcher =
    Match_id string
  | Match_item "hyper_item \<Rightarrow> bool"
  | Match_pred "hyper_item \<Rightarrow> bool"

fun first_index :: "('a \<Rightarrow> bool) \<Rightarrow> 'a list \<Rightarrow> nat option" where
  "first_index p [] = None"
| "first_index p (x # xs) = (if p x then Some 0 else map_option Suc (first_index p xs))"

definition to_remove :: "item_matcher \<Rightarrow> hyper_item list \<Rightarrow> nat list" where
  "to_remove selector raw =
     (case selector of
        Match_id i \<Rightarrow> (case found_idx i raw of None \<Rightarrow> [] | Some n \<Rightarrow> [n])
      | Match_pred p \<Rightarrow> filter (\<lambda>n. p (raw ! n)) [0..<length raw]
      | Match_item same \<Rightarrow> (case first_index same raw of None \<Rightarrow> [] | Some n \<Rightarrow> [n]))"

text \<open>
  The removal loop of \<^verbatim>\<open>_unregister_item\<close>; the indices come highest first. They were
  collected from the same array, so each is in range when its turn comes.
\<close>

fun remove_loop :: "string \<Rightarrow> nat list \<Rightarrow> palette \<Rightarrow> palette" where
  "remove_loop k [] s = s"
| "remove_loop k (i # rest) s =
     (case get_mode s k of
        None \<Rightarrow> s
      | Some m \<Rightarrow>
          (case js_index (rawAll m) (int i) of
             None \<Rightarrow> s
           | Some removed \<Rightarrow>
               remove_loop k rest
                 (upd_mode k
                    (\<lambda>m. m\<lparr>rawAllSorted := remove_by_id (item_id removed) (rawAllSorted m)\<rparr>)
                    (call_onUnregister removed
                       (unregister_shortcut removed
                          (upd_mode k
                             (\<lambda>m. m\<lparr>rawAll := js_splice1 (rawAll m) i,
                                    items := js_splice1 (items m) i,
                                    searcher := searcher_remove removed (searcher m)\<rparr>) s))))))"

fun unregister_loop :: "string \<Rightarrow> item_matcher list \<Rightarrow> nat \<Rightarrow> palette \<Rightarrow> palette \<times> nat" where
  "unregister_loop k [] removed_count s = (s, removed_count)"
| "unregister_loop k (selector # rest) removed_count s =
     (case get_mode s k of
        None \<Rightarrow> (s, removed_count)
      | Some m \<Rightarrow>
          let ns = to_remove selector (rawAll m) in
          if length ns = 0 then unregister_loop k rest removed_count s
          else unregister_loop k rest (removed_count + length ns) (remove_loop k (rev ns) s))"

definition unregister_item :: "string \<Rightarrow> item_matcher list \<Rightarrow> palette \<Rightarrow> palette \<times> error option" where
  "unregister_item k selector s =
     (case unregister_loop k selector 0 s of
        (s1, removed_count) \<Rightarrow>
          if removed_count = 0 then (s1, None) else refresh_if_active k s1)"

definition unregisterItem :: "string \<Rightarrow> item_matcher list \<Rightarrow> palette \<Rightarrow> palette \<times> error option" where
  "unregisterItem k selector s =
     (if get_mode s k = None then (s, Some (not_registered k))
      else unregister_item k selector s)"

text \<open>
  A session of the registry: calls of \<^verbatim>\<open>registerItem\<close>, of \<^verbatim>\<open>unregisterItem\<close> and of
  reversal callbacks, in any order. A call that throws leaves the palette as it was when
  the error was thrown, and the session goes on.
\<close>

datatype registry_call =
    Register string "hyper_item list" bool bool
  | Unregister string "item_matcher list"
  | Reverse string "hyper_item list"

fun registry_step :: "registry_call \<Rightarrow> palette \<Rightarrow> palette" where
  "registry_step (Register k item override silent) s = fst (registerItem k item override silent s)"
| "registry_step (Unregister k selector) s = fst (unregisterItem k selector s)"
| "registry_step (Reverse k new_items) s = fst (reverse_register k new_items s)"

fun registry_run :: "registry_call list \<Rightarrow> palette \<Rightarrow> palette" where
  "registry_run [] s = s"
| "registry_run (c # cs) s = registry_run cs (registry_step c s)"

section \<open>Well-formed palettes\<close>

text \<open>
  The conditions on a palette, a mode or a comparator under which the properties below are
  stated.
\<close>

text \<open>
  A mode configuration the TypeScript types admit: \<^verbatim>\<open>emptyMode\<close> is one of the three
  values.
\<close>

definition valid_empty_mode :: "palette_mode_state \<Rightarrow> bool" where
  "valid_empty_mode m = (case emptyMode (config m) of OTHER_MODE v \<Rightarrow> False | _ \<Rightarrow> True)"

text \<open>
  The active mode exists and its \<^verbatim>\<open>emptyMode\<close> is one of the three values.
\<close>

definition valid_active :: "palette \<Rightarrow> bool" where
  "valid_active s = (case active s of None \<Rightarrow> False | Some m \<Rightarrow> valid_empty_mode m)"

text \<open>
  What \<^verbatim>\<open>getModes\<close> guarantees of \<^verbatim>\<open>_modes\<close>: the keys of the \<^verbatim>\<open>Map\<close> are distinct, and every
  mode state carries its key as its name.
\<close>

definition wf_modes :: "palette \<Rightarrow> bool" where
  "wf_modes s =
     (distinct (map fst (modes s)) \<and> list_all (\<lambda>km. mode (snd km) = fst km) (modes s))"

text \<open>
  Within every mode, no two items of \<^verbatim>\<open>rawAll\<close> have the same id.
\<close>

definition ids_unique :: "palette \<Rightarrow> bool" where
  "ids_unique s = list_all (\<lambda>km. distinct (map item_id (rawAll (snd km)))) (modes s)"


text \<open>
  Sorted by the cached sort key, under the comparator.
\<close>

fun sorted_by :: "(string \<Rightarrow> string \<Rightarrow> int) \<Rightarrow> hyper_item list \<Rightarrow> bool" where
  "sorted_by lc [] = True"
| "sorted_by lc (a # bs) =
     ((\<forall>b\<in>set bs. lc (hcache_sort a) (hcache_sort b) \<le> 0) \<and> sorted_by lc bs)"






section \<open>States a registration leaves\<close>









section \<open>Concrete palettes\<close>

text \<open>
  Small palettes on which the theorems below are instantiated. \<open>compare_units\<close> compares
  two strings code unit by code unit, a comparator \<^verbatim>\<open>localeCompare\<close> can be.
\<close>

fun compare_units :: "string \<Rightarrow> string \<Rightarrow> int" where
  "compare_units [] [] = 0"
| "compare_units [] (y # ys) = - 1"
| "compare_units (x # xs) [] = 1"
| "compare_units (x # xs) (y # ys) =
     (if (of_char x :: nat) < of_char y then - 1
      else if (of_char y :: nat) < of_char x then 1
      else compare_units xs ys)"

definition demo_item :: "string \<Rightarrow> hyper_item" where
  "demo_item i =
     \<lparr>itype = ACTIONABLE, item_id = i, name = i, hcache_sort = i, shortcut = Some [],
      closeOn = Some NEVER, onRequest = (\<lambda>_. Request_value []), onAction = (\<lambda>_ _. Returns),
      onError = None, onUnregister = False, external = False, url = []\<rparr>"

definition demo_config :: "string \<Rightarrow> no_results_mode \<Rightarrow> mode_config" where
  "demo_config p em =
     \<lparr>cfg_type = ACTIONABLE, cfg_prefix = p, emptyMode = em, sortMode = SORTED,
      cfg_shortcut = [], cfg_closeOn = ALWAYS, onNavigation = None,
      onExternal = (\<lambda>_. Returns), onLocal = (\<lambda>_. Returns), cfg_onError = None\<rparr>"

text \<open>
  A mode as \<^verbatim>\<open>getModes\<close> builds it, holding the items \<open>xs\<close>; its searcher ranks the
  indexed items whose name starts with the query.
\<close>

definition demo_mode :: "string \<Rightarrow> string \<Rightarrow> no_results_mode \<Rightarrow> hyper_item list \<Rightarrow> palette_mode_state" where
  "demo_mode k p em xs =
     \<lparr>mode = k,
      sort_cfg = \<lparr>sort_type = Sort_search, mapper = name, sorter = defaultItemSorter compare_units\<rparr>,
      config = demo_config p em,
      items = map Some xs, results = [], history = [],
      searcher = \<lparr>indexed = xs, ranking = (\<lambda>ys q. filter (\<lambda>y. prefix q (name y)) ys)\<rparr>,
      current = None, rawAll = xs, rawAllSorted = defaultItemSorter compare_units xs,
      lastInput = []\<rparr>"

definition demo_palette :: "palette_mode_state list \<Rightarrow> string \<Rightarrow> palette" where
  "demo_palette ms k =
     \<lparr>modes = map (\<lambda>m. (mode m, m)) ms, mode_state = k, is_open = True, searchText = [],
      paletteMode = k, closeAction = RESET, debounce = 0, error_slot = None,
      resetOnOpen = False, selected = \<lparr>el = None, sel_id = None, idx = - 1\<rparr>,
      input_el = None, shorcuts_cleanup = [], debounce_id = None, calls = []\<rparr>"

text \<open>
  The palette of the witnesses for the cursor: one mode whose results are three items, the
  first of them selected.
\<close>

definition cursor_mode :: palette_mode_state where
  "cursor_mode =
     (demo_mode ''default'' [] ALL_ITEMS [demo_item ''a'', demo_item ''b'', demo_item ''c''])
       \<lparr>results := [demo_item ''a'', demo_item ''b'', demo_item ''c'']\<rparr>"

definition cursor_palette :: "int \<Rightarrow> string option \<Rightarrow> palette" where
  "cursor_palette i sid =
     (demo_palette [cursor_mode] ''default'')\<lparr>selected := \<lparr>el = None, sel_id = sid, idx = i\<rparr>\<rparr>"

text \<open>A mode with a history, one id of which has no item any more.\<close>

definition history_palette :: "no_results_mode \<Rightarrow> palette" where
  "history_palette em =
     demo_palette
       [(demo_mode ''default'' [] em [demo_item ''b'', demo_item ''a''])
          \<lparr>history := [''a'', ''gone'', ''b'']\<rparr>] ''default''"

definition history_mode :: "no_results_mode \<Rightarrow> palette_mode_state" where
  "history_mode em =
     (demo_mode ''default'' [] em [demo_item ''b'', demo_item ''a''])
       \<lparr>history := [''a'', ''gone'', ''b'']\<rparr>"

text \<open>
  A palette in the mode \<open>commands\<close>, which is resolving the item \<open>a\<close>; the close action and
  the open flag are the parameters.
\<close>

definition busy_mode :: palette_mode_state where
  "busy_mode =
     (demo_mode ''commands'' ''>'' ALL_ITEMS [demo_item ''b'', demo_item ''a''])
       \<lparr>current := Some (demo_item ''a'')\<rparr>"

definition close_demo :: "palette_close_action \<Rightarrow> bool \<Rightarrow> palette" where
  "close_demo ca op =
     (demo_palette [busy_mode] ''commands'')
       \<lparr>closeAction := ca, is_open := op, searchText := ''>ab'', input_el := Some ''>ab''\<rparr>"

text \<open>
  Items and palettes for the resolvers: \<open>ok_item\<close> succeeds, the action of \<open>failing_item\<close>
  throws; both close on success only, in a mode whose empty query shows the history.
  \<open>nav_item\<close> is external, in a mode whose \<^verbatim>\<open>onExternal\<close> throws.
\<close>

definition ok_item :: hyper_item where
  "ok_item = (demo_item ''a'')\<lparr>closeOn := Some ON_SUCCESS\<rparr>"

definition failing_item :: hyper_item where
  "failing_item =
     (demo_item ''b'')
       \<lparr>closeOn := Some ON_SUCCESS, onAction := (\<lambda>_ _. Throws (Thrown ''boom'')),
        onError := Some (\<lambda>_ _. Returns)\<rparr>"

definition action_mode :: palette_mode_state where
  "action_mode = demo_mode ''commands'' ''>'' HISTORY [ok_item, failing_item]"

definition action_palette :: palette where
  "action_palette = demo_palette [action_mode] ''commands''"

definition nav_item :: hyper_item where
  "nav_item = (demo_item ''n'')\<lparr>itype := NAVIGABLE, external := True, url := ''https://x.test''\<rparr>"

definition nav_mode :: palette_mode_state where
  "nav_mode =
     (demo_mode ''pages'' [] ALL_ITEMS [nav_item])
       \<lparr>config := (demo_config [] ALL_ITEMS)
          \<lparr>cfg_type := NAVIGABLE, onExternal := (\<lambda>_. Throws (Thrown ''offline'')),
           cfg_onError := Some (\<lambda>_ _. Returns)\<rparr>\<rparr>"

definition nav_palette :: palette where
  "nav_palette = demo_palette [nav_mode] ''pages''"

text \<open>
  Palettes for the input handler. In \<open>default_first\<close> the mode with the empty prefix is
  registered before the mode \<open>commands\<close>, in \<open>commands_first\<close> after it; \<open>no_empty_prefix\<close> has
  no mode with the empty prefix.
\<close>

definition default_first :: palette where
  "default_first =
     demo_palette
       [demo_mode ''default'' [] ALL_ITEMS [demo_item ''home''],
        demo_mode ''commands'' ''>'' ALL_ITEMS [demo_item ''foo'']] ''default''"

definition commands_first :: palette where
  "commands_first =
     demo_palette
       [demo_mode ''commands'' ''>'' ALL_ITEMS [demo_item ''foo'', demo_item ''bar''],
        demo_mode ''default'' [] ALL_ITEMS [demo_item ''home'']] ''default''"

definition no_empty_prefix :: palette where
  "no_empty_prefix =
     demo_palette
       [demo_mode ''commands'' ''>'' ALL_ITEMS [demo_item ''a''],
        demo_mode ''users'' ''@'' ALL_ITEMS []] ''commands''"

text \<open>
  A palette with two modes and no item yet, two items with the same id, and a session of
  the registry on them.
\<close>

definition two_modes :: palette where
  "two_modes =
     demo_palette
       [demo_mode ''commands'' ''>'' ALL_ITEMS [], demo_mode ''pages'' [] ALL_ITEMS []] ''pages''"

definition x_one :: hyper_item where
  "x_one = (demo_item ''x'')\<lparr>name := ''One''\<rparr>"

definition x_two :: hyper_item where
  "x_two = (demo_item ''x'')\<lparr>name := ''Two''\<rparr>"

definition demo_calls :: "registry_call list" where
  "demo_calls =
     [Register ''commands'' [x_one, x_two, demo_item ''y''] False True,
      Register ''commands'' [x_two] True True,
      Unregister ''commands'' [Match_id ''y''],
      Register ''pages'' [x_one] False False]"








section \<open>Properties\<close>

subsection \<open>Reading and writing the modes\<close>

lemma get_mode_upd_mode:
  "get_mode (upd_mode k f s) k' = (if k' = k then map_option f (get_mode s k) else get_mode s k')"
  by (simp add: get_mode_def upd_mode_def map_of_map_entry split: option.splits)

lemma upd_mode_fields:
  "mode_state (upd_mode k f s) = mode_state s"
  "is_open (upd_mode k f s) = is_open s"
  "searchText (upd_mode k f s) = searchText s"
  "paletteMode (upd_mode k f s) = paletteMode s"
  "closeAction (upd_mode k f s) = closeAction s"
  "debounce (upd_mode k f s) = debounce s"
  "error_slot (upd_mode k f s) = error_slot s"
  "selected (upd_mode k f s) = selected s"
  "input_el (upd_mode k f s) = input_el s"
  "shorcuts_cleanup (upd_mode k f s) = shorcuts_cleanup s"
  "debounce_id (upd_mode k f s) = debounce_id s"
  "calls (upd_mode k f s) = calls s"
  by (simp_all add: upd_mode_def)

lemma active_upd_active: "active (upd_active f s) = map_option f (active s)"
  by (simp add: active_def upd_active_def get_mode_upd_mode upd_mode_fields)

lemma upd_active_fields:
  "mode_state (upd_active f s) = mode_state s"
  "is_open (upd_active f s) = is_open s"
  "searchText (upd_active f s) = searchText s"
  "paletteMode (upd_active f s) = paletteMode s"
  "closeAction (upd_active f s) = closeAction s"
  "debounce (upd_active f s) = debounce s"
  "error_slot (upd_active f s) = error_slot s"
  "selected (upd_active f s) = selected s"
  "input_el (upd_active f s) = input_el s"
  "shorcuts_cleanup (upd_active f s) = shorcuts_cleanup s"
  "debounce_id (upd_active f s) = debounce_id s"
  "calls (upd_active f s) = calls s"
  by (simp_all add: upd_active_def upd_mode_fields)

lemma active_select_first: "active (select_first res s) = active s"
  by (simp add: select_first_def active_def get_mode_def)

subsection \<open>Selection cursor\<close>

lemma active_select_next: "active (fst (select_next_result s)) = active s"
  by (auto simp: select_next_result_def active_def get_mode_def Let_def split: option.splits)

lemma select_next_in_range:
  assumes "active s = Some m" "results m \<noteq> []" "0 \<le> idx (selected s)"
  shows "select_next_result s =
           (s\<lparr>selected := (selected s)
                \<lparr>idx := (idx (selected s) + 1) mod int (length (results m)),
                 sel_id := Some (item_id (results m !
                             nat ((idx (selected s) + 1) mod int (length (results m)))))\<rparr>\<rparr>, None)"
  using assms by (simp add: select_next_result_def js_rem_def js_index_def Let_def)

lemma select_previous_in_range:
  assumes "active s = Some m" "results m \<noteq> []" "0 \<le> idx (selected s)"
  shows "select_previous_result s =
           (s\<lparr>selected := (selected s)
                \<lparr>idx := (idx (selected s) - 1 + int (length (results m))) mod int (length (results m)),
                 sel_id := Some (item_id (results m !
                             nat ((idx (selected s) - 1 + int (length (results m)))
                                   mod int (length (results m)))))\<rparr>\<rparr>, None)"
proof -
  have n: "1 \<le> int (length (results m))"
    using assms(2) by (cases "results m") auto
  have nn: "\<not> idx (selected s) - 1 + int (length (results m)) < 0"
    using n assms(3) by linarith
  show ?thesis
    using assms n nn by (simp add: select_previous_result_def js_rem_def js_index_def Let_def)
qed

lemma select_next_thrice:
  assumes "active s = Some m" "length (results m) = 3" "idx (selected s) = 0"
  shows "idx (selected (fst (select_next_result (fst (select_next_result
           (fst (select_next_result s))))))) = 0"
proof -
  have ne: "results m \<noteq> []" using assms(2) by auto
  let ?s1 = "fst (select_next_result s)"
  let ?s2 = "fst (select_next_result ?s1)"
  have a1: "active ?s1 = Some m" using assms(1) by (simp add: active_select_next)
  have a2: "active ?s2 = Some m" using a1 by (simp add: active_select_next)
  have i1: "idx (selected ?s1) = 1"
    using select_next_in_range[OF assms(1) ne] assms(2,3) by simp
  have i2: "idx (selected ?s2) = 2"
    using select_next_in_range[OF a1 ne] assms(2) i1 by simp
  show ?thesis
    using select_next_in_range[OF a2 ne] assms(2) i2 by simp
qed

text \<open>
  Claim C5. With the active mode \<open>m\<close>: on empty results \<^verbatim>\<open>_select_next_result\<close> and
  \<^verbatim>\<open>_select_previous_result\<close> change nothing; on non-empty results, from a selected index
  \<open>i \<ge> 0\<close>, the first moves the index to \<open>(i + 1) mod length\<close> and the second to
  \<open>(i - 1 + length) mod length\<close>, each setting the selection id to the id of the item at
  the new index, and neither throws. With three results and index 0, three calls of
  \<^verbatim>\<open>_select_next_result\<close> come back to index 0, and one \<^verbatim>\<open>_select_previous_result\<close> lands
  on index 2.
\<close>

theorem select_cyclic:
  assumes "active s = Some m"
  shows "(results m = [] \<longrightarrow>
            select_next_result s = (s, None) \<and> select_previous_result s = (s, None)) \<and>
         (results m \<noteq> [] \<and> 0 \<le> idx (selected s) \<longrightarrow>
            select_next_result s =
              (s\<lparr>selected := (selected s)
                   \<lparr>idx := (idx (selected s) + 1) mod int (length (results m)),
                    sel_id := Some (item_id (results m !
                                nat ((idx (selected s) + 1) mod int (length (results m)))))\<rparr>\<rparr>, None) \<and>
            select_previous_result s =
              (s\<lparr>selected := (selected s)
                   \<lparr>idx := (idx (selected s) - 1 + int (length (results m))) mod int (length (results m)),
                    sel_id := Some (item_id (results m !
                                nat ((idx (selected s) - 1 + int (length (results m)))
                                      mod int (length (results m)))))\<rparr>\<rparr>, None)) \<and>
         (length (results m) = 3 \<and> idx (selected s) = 0 \<longrightarrow>
            idx (selected (fst (select_next_result (fst (select_next_result
              (fst (select_next_result s))))))) = 0 \<and>
            idx (selected (fst (select_previous_result s))) = 2)"
proof (intro conjI impI)
  assume "results m = []"
  then show "select_next_result s = (s, None)"
    using assms by (simp add: select_next_result_def)
next
  assume "results m = []"
  then show "select_previous_result s = (s, None)"
    using assms by (simp add: select_previous_result_def)
next
  assume "results m \<noteq> [] \<and> 0 \<le> idx (selected s)"
  then show "select_next_result s =
      (s\<lparr>selected := (selected s)
           \<lparr>idx := (idx (selected s) + 1) mod int (length (results m)),
            sel_id := Some (item_id (results m !
                        nat ((idx (selected s) + 1) mod int (length (results m)))))\<rparr>\<rparr>, None)"
    using select_next_in_range[OF assms] by simp
next
  assume "results m \<noteq> [] \<and> 0 \<le> idx (selected s)"
  then show "select_previous_result s =
      (s\<lparr>selected := (selected s)
           \<lparr>idx := (idx (selected s) - 1 + int (length (results m))) mod int (length (results m)),
            sel_id := Some (item_id (results m !
                        nat ((idx (selected s) - 1 + int (length (results m)))
                              mod int (length (results m)))))\<rparr>\<rparr>, None)"
    using select_previous_in_range[OF assms] by simp
next
  assume "length (results m) = 3 \<and> idx (selected s) = 0"
  then show "idx (selected (fst (select_next_result (fst (select_next_result
      (fst (select_next_result s))))))) = 0"
    using select_next_thrice[OF assms] by simp
next
  assume h: "length (results m) = 3 \<and> idx (selected s) = 0"
  then have "results m \<noteq> []" by auto
  then show "idx (selected (fst (select_previous_result s))) = 2"
    using select_previous_in_range[OF assms] h by simp
qed

lemma active_cursor_palette: "active (cursor_palette i sid) = Some cursor_mode"
  by (simp add: active_def get_mode_def cursor_palette_def demo_palette_def cursor_mode_def
      demo_mode_def)

lemma selected_cursor_palette:
  "selected (cursor_palette i sid) = \<lparr>el = None, sel_id = sid, idx = i\<rparr>"
  by (simp add: cursor_palette_def)

lemma results_cursor_mode:
  "results cursor_mode = [demo_item ''a'', demo_item ''b'', demo_item ''c'']"
  by (simp add: cursor_mode_def)

theorem select_cyclic_witness:
  "active (cursor_palette 0 (Some ''a'')) = Some cursor_mode \<and>
   length (results cursor_mode) = 3 \<and>
   idx (selected (cursor_palette 0 (Some ''a''))) = 0 \<and>
   selected (fst (select_next_result (cursor_palette 0 (Some ''a'')))) =
     \<lparr>el = None, sel_id = Some ''b'', idx = 1\<rparr> \<and>
   selected (fst (select_previous_result (cursor_palette 0 (Some ''a'')))) =
     \<lparr>el = None, sel_id = Some ''c'', idx = 2\<rparr> \<and>
   idx (selected (fst (select_next_result (fst (select_next_result
     (fst (select_next_result (cursor_palette 0 (Some ''a''))))))))) = 0"
proof -
  note t = select_cyclic[OF active_cursor_palette, of 0 "Some ''a''"]
  have a: "results cursor_mode \<noteq> [] \<and> 0 \<le> idx (selected (cursor_palette 0 (Some ''a'')))"
    by (simp add: results_cursor_mode selected_cursor_palette)
  have b: "length (results cursor_mode) = 3 \<and> idx (selected (cursor_palette 0 (Some ''a''))) = 0"
    by (simp add: results_cursor_mode selected_cursor_palette)
  note step = t[THEN conjunct2, THEN conjunct1, THEN mp, OF a]
  note cycle = t[THEN conjunct2, THEN conjunct2, THEN mp, OF b]
  have n: "selected (fst (select_next_result (cursor_palette 0 (Some ''a'')))) =
             \<lparr>el = None, sel_id = Some ''b'', idx = 1\<rparr>"
    using step[THEN conjunct1]
    by (simp add: results_cursor_mode selected_cursor_palette demo_item_def)
  have p: "selected (fst (select_previous_result (cursor_palette 0 (Some ''a'')))) =
             \<lparr>el = None, sel_id = Some ''c'', idx = 2\<rparr>"
    using step[THEN conjunct2]
    by (simp add: results_cursor_mode selected_cursor_palette demo_item_def)
  show ?thesis
    using n p cycle[THEN conjunct1] a b active_cursor_palette by simp
qed

text \<open>
  Claim C10. With the selection cleared (index \<open>-1\<close>) and results that are not empty,
  \<^verbatim>\<open>_select_next_result\<close> selects index 0 with the id of the first result, and
  \<^verbatim>\<open>_select_previous_result\<close> selects the last index with the id of the last result; neither
  goes through the modular step.
\<close>

theorem select_from_cleared:
  assumes "active s = Some m" and "results m \<noteq> []" and "idx (selected s) = - 1"
  shows "select_next_result s =
           (s\<lparr>selected := (selected s)\<lparr>idx := 0, sel_id := Some (item_id (results m ! 0))\<rparr>\<rparr>, None) \<and>
         select_previous_result s =
           (s\<lparr>selected := (selected s)
                \<lparr>idx := int (length (results m)) - 1,
                 sel_id := Some (item_id (results m ! (length (results m) - 1)))\<rparr>\<rparr>, None)"
  using assms by (simp add: select_next_result_def select_previous_result_def)

theorem select_from_cleared_witness:
  "active (cursor_palette (- 1) None) = Some cursor_mode \<and>
   results cursor_mode \<noteq> [] \<and>
   idx (selected (cursor_palette (- 1) None)) = - 1 \<and>
   selected (fst (select_next_result (cursor_palette (- 1) None))) =
     \<lparr>el = None, sel_id = Some ''a'', idx = 0\<rparr> \<and>
   selected (fst (select_previous_result (cursor_palette (- 1) None))) =
     \<lparr>el = None, sel_id = Some ''c'', idx = 2\<rparr>"
  using select_from_cleared[OF active_cursor_palette, of "- 1" None]
  by (simp add: results_cursor_mode active_cursor_palette selected_cursor_palette demo_item_def)

subsection \<open>Empty query\<close>

lemma history_results_map_filter:
  "history_results h raw = List.map_filter (\<lambda>i. find (\<lambda>item. item_id item = i) raw) h"
  by (induction h) (auto simp: List.map_filter_simps split: option.splits)

lemma update_results_empty:
  assumes "active s = Some m" "drop (length (cfg_prefix (config m))) (searchText s) = []"
  shows "update_results s = search_and_update [] s"
  using assms by (simp add: update_results_def)

lemma search_and_update_empty_ok:
  assumes "active s = Some m" "empty_query_results m = Inr res"
  shows "search_and_update [] s = (select_first res (upd_active (\<lambda>m. m\<lparr>results := res\<rparr>) s), None)"
  using assms by (simp add: search_and_update_def)

lemma search_and_update_empty_results:
  assumes "active s = Some m" "empty_query_results m = Inr res"
  shows "snd (search_and_update [] s) = None"
    and "map_option results (active (fst (search_and_update [] s))) = Some res"
  using assms by (simp_all add: search_and_update_empty_ok active_select_first active_upd_active)

text \<open>
  Claim C6. With the active mode \<open>m\<close> and a search text that is empty once the prefix of
  \<open>m\<close> is sliced off, \<^verbatim>\<open>_update_results\<close> stores as results: for \<open>ALL\<close>, \<^verbatim>\<open>rawAllSorted\<close>
  as it is; for \<open>HISTORY\<close>, in the order of the history, the first item of \<^verbatim>\<open>rawAll\<close> with
  each id, ids without an item being skipped; for \<open>NONE\<close>, the empty sequence. For any
  other value it throws the \<^verbatim>\<open>HyperPaletteError\<close> "Invalid empty mode" and changes nothing.
\<close>

theorem empty_query_policy:
  assumes "active s = Some m"
    and "drop (length (cfg_prefix (config m))) (searchText s) = []"
  shows "(emptyMode (config m) = ALL_ITEMS \<longrightarrow>
            snd (update_results s) = None \<and>
            map_option results (active (fst (update_results s))) = Some (rawAllSorted m)) \<and>
         (emptyMode (config m) = HISTORY \<longrightarrow>
            snd (update_results s) = None \<and>
            map_option results (active (fst (update_results s))) =
              Some (List.map_filter (\<lambda>i. find (\<lambda>item. item_id item = i) (rawAll m)) (history m))) \<and>
         (emptyMode (config m) = NONE \<longrightarrow>
            snd (update_results s) = None \<and>
            map_option results (active (fst (update_results s))) = Some []) \<and>
         (\<forall>v. emptyMode (config m) = OTHER_MODE v \<longrightarrow>
            update_results s = (s, Some (HyperPaletteError (''Invalid empty mode: '' @ v))))"
proof (intro conjI impI allI)
  assume "emptyMode (config m) = ALL_ITEMS"
  then have e: "empty_query_results m = Inr (rawAllSorted m)"
    by (simp add: empty_query_results_def)
  show "snd (update_results s) = None"
    using search_and_update_empty_results(1)[OF assms(1) e] update_results_empty[OF assms] by simp
  show "map_option results (active (fst (update_results s))) = Some (rawAllSorted m)"
    using search_and_update_empty_results(2)[OF assms(1) e] update_results_empty[OF assms] by simp
next
  assume "emptyMode (config m) = HISTORY"
  then have e: "empty_query_results m =
      Inr (List.map_filter (\<lambda>i. find (\<lambda>item. item_id item = i) (rawAll m)) (history m))"
    by (simp add: empty_query_results_def history_results_map_filter)
  show "snd (update_results s) = None"
    using search_and_update_empty_results(1)[OF assms(1) e] update_results_empty[OF assms] by simp
  show "map_option results (active (fst (update_results s))) =
      Some (List.map_filter (\<lambda>i. find (\<lambda>item. item_id item = i) (rawAll m)) (history m))"
    using search_and_update_empty_results(2)[OF assms(1) e] update_results_empty[OF assms] by simp
next
  assume "emptyMode (config m) = NONE"
  then have e: "empty_query_results m = Inr []"
    by (simp add: empty_query_results_def)
  show "snd (update_results s) = None"
    using search_and_update_empty_results(1)[OF assms(1) e] update_results_empty[OF assms] by simp
  show "map_option results (active (fst (update_results s))) = Some []"
    using search_and_update_empty_results(2)[OF assms(1) e] update_results_empty[OF assms] by simp
next
  fix v
  assume "emptyMode (config m) = OTHER_MODE v"
  then show "update_results s = (s, Some (HyperPaletteError (''Invalid empty mode: '' @ v)))"
    using assms by (simp add: update_results_def search_and_update_def empty_query_results_def)
qed

lemma sorted_demo: "defaultItemSorter compare_units [demo_item ''b'', demo_item ''a''] = [demo_item ''a'', demo_item ''b'']"
  by (simp add: defaultItemSorter_def demo_item_def)

lemma active_history_palette: "active (history_palette em) = Some (history_mode em)"
  by (simp add: active_def get_mode_def history_palette_def history_mode_def demo_palette_def demo_mode_def)

lemma history_mode_fields:
  "emptyMode (config (history_mode em)) = em"
  "cfg_prefix (config (history_mode em)) = []"
  "rawAll (history_mode em) = [demo_item ''b'', demo_item ''a'']"
  "rawAllSorted (history_mode em) = [demo_item ''a'', demo_item ''b'']"
  "history (history_mode em) = [''a'', ''gone'', ''b'']"
  by (simp_all add: history_mode_def demo_mode_def demo_config_def sorted_demo)

lemma searchText_history_palette: "searchText (history_palette em) = []"
  by (simp add: history_palette_def demo_palette_def)

theorem empty_query_policy_witness:
  "map_option results (active (fst (update_results (history_palette ALL_ITEMS)))) =
     Some [demo_item ''a'', demo_item ''b''] \<and>
   map_option results (active (fst (update_results (history_palette HISTORY)))) =
     Some [demo_item ''a'', demo_item ''b''] \<and>
   map_option results (active (fst (update_results (history_palette NONE)))) = Some [] \<and>
   update_results (history_palette (OTHER_MODE ''EMPTY'')) =
     (history_palette (OTHER_MODE ''EMPTY''), Some (HyperPaletteError ''Invalid empty mode: EMPTY''))"
proof -
  have d: "drop (length (cfg_prefix (config (history_mode em)))) (searchText (history_palette em)) = []" for em
    by (simp add: searchText_history_palette)
  note t = empty_query_policy[OF active_history_palette d]
  have 1: "map_option results (active (fst (update_results (history_palette ALL_ITEMS)))) =
     Some [demo_item ''a'', demo_item ''b'']"
    using t[of ALL_ITEMS] by (simp add: history_mode_fields)
  have 2: "map_option results (active (fst (update_results (history_palette HISTORY)))) =
     Some [demo_item ''a'', demo_item ''b'']"
    using t[of HISTORY] by (simp add: history_mode_fields List.map_filter_simps demo_item_def)
  have 3: "map_option results (active (fst (update_results (history_palette NONE)))) = Some []"
    using t[of NONE] by (simp add: history_mode_fields)
  have 4: "update_results (history_palette (OTHER_MODE ''EMPTY'')) =
     (history_palette (OTHER_MODE ''EMPTY''), Some (HyperPaletteError ''Invalid empty mode: EMPTY''))"
    using t[of "OTHER_MODE ''EMPTY''"] by (simp add: history_mode_fields)
  show ?thesis using 1 2 3 4 by simp
qed

subsection \<open>Close resolution\<close>

lemma get_mode_fields:
  "get_mode (s\<lparr>is_open := b\<rparr>) k = get_mode s k"
  "get_mode (s\<lparr>searchText := t\<rparr>) k = get_mode s k"
  "get_mode (s\<lparr>input_el := ie\<rparr>) k = get_mode s k"
  "get_mode (s\<lparr>error_slot := er\<rparr>) k = get_mode s k"
  "get_mode (s\<lparr>calls := cs\<rparr>) k = get_mode s k"
  "get_mode (s\<lparr>selected := sl\<rparr>) k = get_mode s k"
  "get_mode (s\<lparr>debounce_id := d\<rparr>) k = get_mode s k"
  "get_mode (s\<lparr>shorcuts_cleanup := sc\<rparr>) k = get_mode s k"
  "get_mode (s\<lparr>mode_state := ms\<rparr>) k = get_mode s k"
  "get_mode (s\<lparr>paletteMode := pm\<rparr>) k = get_mode s k"
  "get_mode (select_first res s) k = get_mode s k"
  by (simp_all add: get_mode_def select_first_def)

lemma active_fields:
  "active (s\<lparr>is_open := b\<rparr>) = active s"
  "active (s\<lparr>searchText := t\<rparr>) = active s"
  "active (s\<lparr>input_el := ie\<rparr>) = active s"
  "active (s\<lparr>error_slot := er\<rparr>) = active s"
  "active (s\<lparr>calls := cs\<rparr>) = active s"
  "active (s\<lparr>selected := sl\<rparr>) = active s"
  "active (s\<lparr>debounce_id := d\<rparr>) = active s"
  "active (s\<lparr>shorcuts_cleanup := sc\<rparr>) = active s"
  "active (s\<lparr>paletteMode := pm\<rparr>) = active s"
  by (simp_all add: active_def get_mode_def)

lemma get_mode_upd_active:
  "get_mode (upd_active f s) k =
     (if k = mode_state s then map_option f (get_mode s k) else get_mode s k)"
  by (simp add: upd_active_def get_mode_upd_mode)

lemma select_first_fields:
  "mode_state (select_first res s) = mode_state s"
  "is_open (select_first res s) = is_open s"
  "searchText (select_first res s) = searchText s"
  "paletteMode (select_first res s) = paletteMode s"
  "closeAction (select_first res s) = closeAction s"
  "error_slot (select_first res s) = error_slot s"
  "input_el (select_first res s) = input_el s"
  "calls (select_first res s) = calls s"
  "modes (select_first res s) = modes s"
  by (simp_all add: select_first_def)

lemma empty_query_results_cong:
  "emptyMode (config m') = emptyMode (config m) \<Longrightarrow> rawAllSorted m' = rawAllSorted m \<Longrightarrow>
   history m' = history m \<Longrightarrow> rawAll m' = rawAll m \<Longrightarrow>
   empty_query_results m' = empty_query_results m"
  by (simp add: empty_query_results_def split: no_results_mode.splits)

lemma valid_empty_mode_results: "valid_empty_mode m \<Longrightarrow> \<exists>res. empty_query_results m = Inr res"
  by (auto simp: valid_empty_mode_def empty_query_results_def split: no_results_mode.splits)

text \<open>The close resolution, unfolded for a palette whose active mode exists.\<close>

lemma resolve_close_action_unfold:
  assumes "active s = Some m"
  shows "resolve_close_action s =
     (let s1 = upd_active (\<lambda>m. m\<lparr>lastInput := searchText s\<rparr>) s;
          s1' = s1\<lparr>input_el := map_option (\<lambda>_. cfg_prefix (config m)) (input_el s),
                   searchText := cfg_prefix (config m)\<rparr>
      in if closeAction s = RESET \<or> closeAction s = RESET_CLOSE then
           (case empty_query_results m of
              Inl e \<Rightarrow> (s1', Some e)
            | Inr res \<Rightarrow>
                (let s2 = select_first res (upd_active (\<lambda>m. m\<lparr>results := res\<rparr>) s1')
                 in (if closeAction s = RESET_CLOSE \<and> \<not> is_open s then s2\<lparr>is_open := True\<rparr> else s2,
                     None)))
         else (if closeAction s = KEEP_CLOSE \<and> \<not> is_open s then s1\<lparr>is_open := True\<rparr> else s1,
               None))"
proof -
  let ?m1 = "m\<lparr>lastInput := searchText s\<rparr>"
  have e: "empty_query_results ?m1 = empty_query_results m"
    by (rule empty_query_results_cong) simp_all
  show ?thesis
    using assms e
    by (cases "empty_query_results m")
       (auto simp: resolve_close_action_def Let_def search_and_update_def active_upd_active
          active_fields upd_active_fields select_first_fields)
qed

text \<open>
  Claim C7. \<^verbatim>\<open>_resolve_close_action\<close> on a palette whose active mode is \<open>m\<close>. With
  \<open>KEEP_CLOSE\<close>, and with \<open>RESET_CLOSE\<close> when the empty-query pipeline does not throw, it sets
  \<open>open\<close> to true if it was false and leaves it unchanged if it was true; with \<open>NO_ACTION\<close>
  and \<open>RESET\<close> it leaves \<open>open\<close> as it was. With \<open>RESET\<close> and \<open>RESET_CLOSE\<close> the search text
  and the input element become the prefix of the mode, and the results and the selection
  are those of the empty-query pipeline. The last input is the search text before the
  reset. The current item of no mode is changed.
\<close>

theorem close_resolution:
  assumes "active s = Some m"
  shows "((closeAction s = KEEP_CLOSE \<or> closeAction s = RESET_CLOSE \<and> valid_empty_mode m) \<longrightarrow>
            snd (resolve_close_action s) = None \<and>
            (\<not> is_open s \<longrightarrow> is_open (fst (resolve_close_action s))) \<and>
            (is_open s \<longrightarrow> is_open (fst (resolve_close_action s)) = is_open s)) \<and>
         ((closeAction s = NO_ACTION \<or> closeAction s = RESET) \<longrightarrow>
            is_open (fst (resolve_close_action s)) = is_open s) \<and>
         ((closeAction s = RESET \<or> closeAction s = RESET_CLOSE) \<longrightarrow>
            (\<forall>res. empty_query_results m = Inr res \<longrightarrow>
               snd (resolve_close_action s) = None \<and>
               searchText (fst (resolve_close_action s)) = cfg_prefix (config m) \<and>
               input_el (fst (resolve_close_action s)) =
                 map_option (\<lambda>_. cfg_prefix (config m)) (input_el s) \<and>
               map_option results (active (fst (resolve_close_action s))) = Some res \<and>
               selected (fst (resolve_close_action s)) = selected (select_first res s))) \<and>
         map_option lastInput (active (fst (resolve_close_action s))) = Some (searchText s) \<and>
         (\<forall>k. map_option current (get_mode (fst (resolve_close_action s)) k) =
                map_option current (get_mode s k))"
proof (intro conjI impI allI)
  assume h: "closeAction s = KEEP_CLOSE \<or> closeAction s = RESET_CLOSE \<and> valid_empty_mode m"
  then obtain res where "closeAction s = KEEP_CLOSE \<or>
      closeAction s = RESET_CLOSE \<and> empty_query_results m = Inr res"
    using valid_empty_mode_results by blast
  then have "snd (resolve_close_action s) = None \<and> is_open (fst (resolve_close_action s))"
    by (auto simp: resolve_close_action_unfold[OF assms] Let_def select_first_fields
        upd_active_fields)
  then show "snd (resolve_close_action s) = None"
    and "\<not> is_open s \<Longrightarrow> is_open (fst (resolve_close_action s))"
    and "is_open s \<Longrightarrow> is_open (fst (resolve_close_action s)) = is_open s"
    by simp_all
next
  assume "closeAction s = NO_ACTION \<or> closeAction s = RESET"
  then show "is_open (fst (resolve_close_action s)) = is_open s"
    by (cases "empty_query_results m")
       (auto simp: resolve_close_action_unfold[OF assms] Let_def select_first_fields
          upd_active_fields)
next
  fix res
  assume r: "closeAction s = RESET \<or> closeAction s = RESET_CLOSE"
    and e: "empty_query_results m = Inr res"
  show "snd (resolve_close_action s) = None"
    using r e by (auto simp: resolve_close_action_unfold[OF assms] Let_def)
  show "searchText (fst (resolve_close_action s)) = cfg_prefix (config m)"
    using r e
    by (auto simp: resolve_close_action_unfold[OF assms] Let_def select_first_fields
        upd_active_fields)
  show "input_el (fst (resolve_close_action s)) =
      map_option (\<lambda>_. cfg_prefix (config m)) (input_el s)"
    using r e
    by (auto simp: resolve_close_action_unfold[OF assms] Let_def select_first_fields
        upd_active_fields)
  show "map_option results (active (fst (resolve_close_action s))) = Some res"
    using r e assms
    by (auto simp: resolve_close_action_unfold[OF assms] Let_def active_select_first
        active_upd_active active_fields)
  show "selected (fst (resolve_close_action s)) = selected (select_first res s)"
    using r e
    by (auto simp: resolve_close_action_unfold[OF assms] Let_def select_first_def
        upd_active_fields)
next
  show "map_option lastInput (active (fst (resolve_close_action s))) = Some (searchText s)"
    using assms
    by (cases "empty_query_results m")
       (auto simp: resolve_close_action_unfold[OF assms] Let_def active_select_first
          active_upd_active active_fields)
next
  fix k
  show "map_option current (get_mode (fst (resolve_close_action s)) k) =
      map_option current (get_mode s k)"
    by (cases "empty_query_results m"; cases "get_mode s k")
       (auto simp: resolve_close_action_unfold[OF assms] Let_def get_mode_fields
          get_mode_upd_active upd_active_fields)
qed

lemma active_close_demo: "active (close_demo ca op) = Some busy_mode"
  by (simp add: active_def get_mode_def close_demo_def demo_palette_def busy_mode_def
      demo_mode_def)

lemma get_mode_close_demo: "get_mode (close_demo ca op) ''commands'' = Some busy_mode"
  by (simp add: get_mode_def close_demo_def demo_palette_def busy_mode_def demo_mode_def)

lemma close_demo_fields:
  "closeAction (close_demo ca op) = ca"
  "is_open (close_demo ca op) = op"
  "searchText (close_demo ca op) = ''>ab''"
  "input_el (close_demo ca op) = Some ''>ab''"
  by (simp_all add: close_demo_def)

lemma busy_mode_fields:
  "valid_empty_mode busy_mode"
  "empty_query_results busy_mode = Inr [demo_item ''a'', demo_item ''b'']"
  "cfg_prefix (config busy_mode) = ''>''"
  "current busy_mode = Some (demo_item ''a'')"
  by (simp_all add: busy_mode_def demo_mode_def demo_config_def valid_empty_mode_def
      empty_query_results_def sorted_demo)

theorem close_resolution_witness:
  "is_open (fst (resolve_close_action (close_demo RESET_CLOSE False))) \<and>
   is_open (fst (resolve_close_action (close_demo KEEP_CLOSE True))) \<and>
   \<not> is_open (fst (resolve_close_action (close_demo RESET False))) \<and>
   searchText (fst (resolve_close_action (close_demo RESET_CLOSE False))) = ''>'' \<and>
   input_el (fst (resolve_close_action (close_demo RESET_CLOSE False))) = Some ''>'' \<and>
   map_option results (active (fst (resolve_close_action (close_demo RESET_CLOSE False)))) =
     Some [demo_item ''a'', demo_item ''b''] \<and>
   map_option lastInput (active (fst (resolve_close_action (close_demo RESET_CLOSE False)))) =
     Some ''>ab'' \<and>
   map_option current (get_mode (fst (resolve_close_action (close_demo RESET_CLOSE False)))
     ''commands'') = Some (Some (demo_item ''a''))"
proof -
  note t = close_resolution[OF active_close_demo]
  have 1: "is_open (fst (resolve_close_action (close_demo RESET_CLOSE False)))"
    using t[of RESET_CLOSE False, THEN conjunct1]
    by (simp add: close_demo_fields busy_mode_fields)
  have 2: "is_open (fst (resolve_close_action (close_demo KEEP_CLOSE True)))"
    using t[of KEEP_CLOSE True, THEN conjunct1]
    by (simp add: close_demo_fields busy_mode_fields)
  have 3: "\<not> is_open (fst (resolve_close_action (close_demo RESET False)))"
    using t[of RESET False, THEN conjunct2, THEN conjunct1]
    by (simp add: close_demo_fields)
  have 4: "searchText (fst (resolve_close_action (close_demo RESET_CLOSE False))) = ''>'' \<and>
     input_el (fst (resolve_close_action (close_demo RESET_CLOSE False))) = Some ''>'' \<and>
     map_option results (active (fst (resolve_close_action (close_demo RESET_CLOSE False)))) =
       Some [demo_item ''a'', demo_item ''b'']"
    using t[of RESET_CLOSE False, THEN conjunct2, THEN conjunct2, THEN conjunct1]
    by (simp add: close_demo_fields busy_mode_fields)
  have 5: "map_option lastInput (active (fst (resolve_close_action (close_demo RESET_CLOSE False)))) =
     Some ''>ab''"
    using t[of RESET_CLOSE False, THEN conjunct2, THEN conjunct2, THEN conjunct2, THEN conjunct1]
    by (simp add: close_demo_fields)
  have 6: "map_option current (get_mode (fst (resolve_close_action (close_demo RESET_CLOSE False)))
     ''commands'') = Some (Some (demo_item ''a''))"
    using t[of RESET_CLOSE False, THEN conjunct2, THEN conjunct2, THEN conjunct2, THEN conjunct2]
    by (simp add: get_mode_close_demo busy_mode_fields)
  show ?thesis using 1 2 3 4 5 6 by simp
qed

subsection \<open>Action resolution\<close>

lemma valid_active_cong:
  "map_option config (active s') = map_option config (active s) \<Longrightarrow> valid_active s' = valid_active s"
  by (cases "active s"; cases "active s'") (auto simp: valid_active_def valid_empty_mode_def)

lemma close_keeps_mode:
  "map_option history (active (fst (resolve_close_action s))) = map_option history (active s)"
  "map_option current (active (fst (resolve_close_action s))) = map_option current (active s)"
  "map_option mode (active (fst (resolve_close_action s))) = map_option mode (active s)"
  "map_option config (active (fst (resolve_close_action s))) = map_option config (active s)"
proof -
  show "map_option history (active (fst (resolve_close_action s))) = map_option history (active s)"
  proof (cases "active s")
    case None
    then show ?thesis by (simp add: resolve_close_action_def Let_def)
  next
    case (Some m)
    then show ?thesis
      by (cases "empty_query_results m")
         (auto simp: resolve_close_action_unfold[OF Some] Let_def active_select_first
            active_upd_active active_fields)
  qed
  show "map_option current (active (fst (resolve_close_action s))) = map_option current (active s)"
  proof (cases "active s")
    case None
    then show ?thesis by (simp add: resolve_close_action_def Let_def)
  next
    case (Some m)
    then show ?thesis
      by (cases "empty_query_results m")
         (auto simp: resolve_close_action_unfold[OF Some] Let_def active_select_first
            active_upd_active active_fields)
  qed
  show "map_option mode (active (fst (resolve_close_action s))) = map_option mode (active s)"
  proof (cases "active s")
    case None
    then show ?thesis by (simp add: resolve_close_action_def Let_def)
  next
    case (Some m)
    then show ?thesis
      by (cases "empty_query_results m")
         (auto simp: resolve_close_action_unfold[OF Some] Let_def active_select_first
            active_upd_active active_fields)
  qed
  show "map_option config (active (fst (resolve_close_action s))) = map_option config (active s)"
  proof (cases "active s")
    case None
    then show ?thesis by (simp add: resolve_close_action_def Let_def)
  next
    case (Some m)
    then show ?thesis
      by (cases "empty_query_results m")
         (auto simp: resolve_close_action_unfold[OF Some] Let_def active_select_first
            active_upd_active active_fields)
  qed
qed

lemma close_keeps_slots:
  "error_slot (fst (resolve_close_action s)) = error_slot s"
  "calls (fst (resolve_close_action s)) = calls s"
proof -
  show "error_slot (fst (resolve_close_action s)) = error_slot s"
  proof (cases "active s")
    case None
    then show ?thesis by (simp add: resolve_close_action_def Let_def)
  next
    case (Some m)
    then show ?thesis
      by (cases "empty_query_results m")
         (auto simp: resolve_close_action_unfold[OF Some] Let_def select_first_fields
            upd_active_fields)
  qed
  show "calls (fst (resolve_close_action s)) = calls s"
  proof (cases "active s")
    case None
    then show ?thesis by (simp add: resolve_close_action_def Let_def)
  next
    case (Some m)
    then show ?thesis
      by (cases "empty_query_results m")
         (auto simp: resolve_close_action_unfold[OF Some] Let_def select_first_fields
            upd_active_fields)
  qed
qed

lemma close_returns: "valid_active s \<Longrightarrow> snd (resolve_close_action s) = None"
proof -
  assume v: "valid_active s"
  then obtain m where m: "active s = Some m" and "valid_empty_mode m"
    by (auto simp: valid_active_def split: option.splits)
  then obtain res where "empty_query_results m = Inr res"
    using valid_empty_mode_results by blast
  then show ?thesis
    by (simp add: resolve_close_action_unfold[OF m] Let_def)
qed

lemma valid_active_close: "valid_active (fst (resolve_close_action s)) = valid_active s"
  by (rule valid_active_cong) (rule close_keeps_mode)

lemma set_current_effects:
  "map_option history (active (set_current c s)) = map_option history (active s)"
  "map_option current (active (set_current c s)) = map_option (\<lambda>_. c) (active s)"
  "map_option mode (active (set_current c s)) = map_option mode (active s)"
  "map_option config (active (set_current c s)) = map_option config (active s)"
  "error_slot (set_current c s) = error_slot s"
  "calls (set_current c s) = calls s"
  by (simp_all add: set_current_def active_upd_active upd_active_fields option.map_comp comp_def)

lemma push_history_effects:
  "map_option history (active (push_history i s)) = map_option (\<lambda>m. i # history m) (active s)"
  "map_option current (active (push_history i s)) = map_option current (active s)"
  "map_option mode (active (push_history i s)) = map_option mode (active s)"
  "map_option config (active (push_history i s)) = map_option config (active s)"
  "error_slot (push_history i s) = error_slot s"
  "calls (push_history i s) = calls s"
  by (simp_all add: push_history_def active_upd_active upd_active_fields option.map_comp comp_def)

lemma set_error_effects:
  "active (set_error e item source s) = active s"
  "error_slot (set_error e item source s) =
     map_option (\<lambda>m. \<lparr>err_error = e, err_item = item, err_source = source, err_mode = mode m\<rparr>)
       (active s)"
  "calls (set_error e item source s) = calls s"
  by (simp_all add: set_error_def active_fields)

lemma valid_active_steps:
  "valid_active (set_current c s) = valid_active s"
  "valid_active (push_history i s) = valid_active s"
  "valid_active (set_error e item source s) = valid_active s"
  "valid_active (s\<lparr>error_slot := er\<rparr>) = valid_active s"
  "valid_active (s\<lparr>calls := cs\<rparr>) = valid_active s"
proof -
  show "valid_active (set_current c s) = valid_active s"
    by (rule valid_active_cong) (rule set_current_effects)
  show "valid_active (push_history i s) = valid_active s"
    by (rule valid_active_cong) (rule push_history_effects)
  show "valid_active (set_error e item source s) = valid_active s"
    by (simp only: valid_active_def set_error_effects)
  show "valid_active (s\<lparr>error_slot := er\<rparr>) = valid_active s"
    by (simp only: valid_active_def active_fields)
  show "valid_active (s\<lparr>calls := cs\<rparr>) = valid_active s"
    by (simp only: valid_active_def active_fields)
qed

lemma same_presence:
  "map_option f (active s') = map_option f (active s) \<Longrightarrow>
   map_option (\<lambda>_. c) (active s') = map_option (\<lambda>_. c) (active s)"
  by (cases "active s"; cases "active s'") simp_all

lemma on_trigger_effects:
  "map_option history (active (fst (on_trigger item s))) = map_option history (active s)"
  "map_option current (active (fst (on_trigger item s))) = map_option (\<lambda>_. Some item) (active s)"
  "map_option mode (active (fst (on_trigger item s))) = map_option mode (active s)"
  "map_option config (active (fst (on_trigger item s))) = map_option config (active s)"
  "error_slot (fst (on_trigger item s)) = error_slot s"
  "calls (fst (on_trigger item s)) = calls s"
  by (simp_all add: on_trigger_def close_keeps_mode close_keeps_slots set_current_effects)

lemma on_trigger_returns: "valid_active s \<Longrightarrow> snd (on_trigger item s) = None"
  by (simp add: on_trigger_def close_returns valid_active_steps)

lemma valid_active_on_trigger: "valid_active (fst (on_trigger item s)) = valid_active s"
  by (rule valid_active_cong) (rule on_trigger_effects)

lemma actionable_success_close_effects:
  assumes "valid_active s"
  shows "snd (actionable_success_close item s) = None"
    and "map_option history (active (fst (actionable_success_close item s))) =
           map_option history (active s)"
    and "map_option current (active (fst (actionable_success_close item s))) =
           map_option (\<lambda>_. None) (active s)"
    and "error_slot (fst (actionable_success_close item s)) = error_slot s"
    and "calls (fst (actionable_success_close item s)) = calls s"
proof -
  have c: "snd (resolve_close_action s) = None" using assms by (rule close_returns)
  obtain s' where r: "resolve_close_action s = (s', None)"
    using c by (cases "resolve_close_action s") auto
  have k: "map_option history (active s') = map_option history (active s)"
    "map_option current (active s') = map_option current (active s)"
    "error_slot s' = error_slot s" "calls s' = calls s"
    using close_keeps_mode(1,2)[of s] close_keeps_slots[of s] r by simp_all
  show "snd (actionable_success_close item s) = None"
    by (simp add: actionable_success_close_def r)
  show "map_option history (active (fst (actionable_success_close item s))) =
           map_option history (active s)"
    by (simp add: actionable_success_close_def r set_current_effects k)
  show "map_option current (active (fst (actionable_success_close item s))) =
           map_option (\<lambda>_. None) (active s)"
    using same_presence[OF k(1), of "None :: hyper_item option"]
    by (simp add: actionable_success_close_def r set_current_effects)
  show "error_slot (fst (actionable_success_close item s)) = error_slot s"
    by (simp add: actionable_success_close_def r set_current_effects k)
  show "calls (fst (actionable_success_close item s)) = calls s"
    by (simp add: actionable_success_close_def r set_current_effects k)
qed

lemma notify_effects:
  "active (notify_onError e item source s) = active s"
  "error_slot (notify_onError e item source s) = error_slot s"
  "calls (notify_onError e item source s) =
     calls s @ (case onError item of None \<Rightarrow> [] | Some h \<Rightarrow> [Called_onError (item_id item) e source])"
  "active (notify_mode_onError cfg e item source s) = active s"
  "error_slot (notify_mode_onError cfg e item source s) = error_slot s"
  "calls (notify_mode_onError cfg e item source s) =
     calls s @ (case cfg_onError cfg of None \<Rightarrow> []
                | Some h \<Rightarrow> [Called_mode_onError (item_id item) e source])"
  by (simp_all add: notify_onError_def notify_mode_onError_def active_fields split: option.splits)

lemma valid_active_notify:
  "valid_active (notify_onError e item source s) = valid_active s"
  "valid_active (notify_mode_onError cfg e item source s) = valid_active s"
  by (simp_all only: valid_active_def notify_effects)

lemma valid_activeI: "active s = Some m \<Longrightarrow> valid_empty_mode m \<Longrightarrow> valid_active s"
  by (simp add: valid_active_def)

lemma resolve_actionable_success:
  assumes "active s = Some m" and "valid_empty_mode m"
    and "onRequest item source = Request_value rarg"
    and "onAction item source rarg = Returns"
  shows "resolve_actionable item source s =
           actionable_success_close item
             (push_history (item_id item) ((fst (on_trigger item s))\<lparr>error_slot := None\<rparr>))"
proof -
  have "snd (on_trigger item s) = None"
    using assms(1,2) by (simp add: on_trigger_returns valid_activeI)
  then obtain s1 where "on_trigger item s = (s1, None)"
    by (cases "on_trigger item s") auto
  then show ?thesis
    using assms by (simp add: resolve_actionable_def)
qed

lemma resolve_actionable_error_falls_through:
  assumes "active s = Some m" and "valid_empty_mode m"
    and "onRequest item source = Request_value rarg"
    and "onAction item source rarg = Throws e"
    and "closeOn item \<noteq> Some ON_ERROR" and "closeOn item \<noteq> Some ALWAYS"
    and "\<forall>h. onError item = Some h \<longrightarrow> h e source = Returns"
  shows "resolve_actionable item source s =
           actionable_success_close item
             (push_history (item_id item)
                (notify_onError e item source (set_error e item source (fst (on_trigger item s)))))"
proof -
  have "snd (on_trigger item s) = None"
    using assms(1,2) by (simp add: on_trigger_returns valid_activeI)
  then obtain s1 where "on_trigger item s = (s1, None)"
    by (cases "on_trigger item s") auto
  then show ?thesis
    using assms by (cases "onError item") (simp_all add: resolve_actionable_def actionable_catch_def)
qed

lemma actionable_tail:
  assumes "active s = Some m" and "valid_empty_mode m"
    and "map_option history (active s2) = Some (history m)"
    and "valid_active s2"
  shows "snd (actionable_success_close item (push_history (item_id item) s2)) = None \<and>
         map_option history
           (active (fst (actionable_success_close item (push_history (item_id item) s2)))) =
           Some (item_id item # history m) \<and>
         map_option current
           (active (fst (actionable_success_close item (push_history (item_id item) s2)))) =
           Some None"
proof -
  let ?p = "push_history (item_id item) s2"
  have v: "valid_active ?p" using assms(4) by (simp add: valid_active_steps)
  obtain m2 where m2: "active s2 = Some m2" "history m2 = history m"
    using assms(3) by (cases "active s2") auto
  have h: "map_option history (active ?p) = Some (item_id item # history m)"
    using m2 by (simp add: push_history_effects)
  obtain mp where mp: "active ?p = Some mp"
    using h by (cases "active ?p") auto
  show ?thesis
    using actionable_success_close_effects(1,2,3)[OF v, of item] h mp by simp
qed

text \<open>
  Claim C8. \<^verbatim>\<open>_resolve_actionable\<close> on a palette whose active mode \<open>m\<close> has a valid
  \<^verbatim>\<open>emptyMode\<close>, when \<^verbatim>\<open>onRequest\<close> resolves to a value other than \<^verbatim>\<open>false\<close>. If
  \<^verbatim>\<open>onAction\<close> returns, and also if it throws while \<^verbatim>\<open>closeOn\<close> is neither \<open>ON_ERROR\<close> nor
  \<open>ALWAYS\<close> (and \<^verbatim>\<open>onError\<close>, when there is one, returns), the id of the item is pushed to
  the front of the history of the active mode first, and the success-close branch
  (\<open>ON_SUCCESS\<close> or \<open>ALWAYS\<close> resolves the close action) and the clearing of \<open>current\<close>
  run on the palette with the pushed history. The resolution then ends without an error,
  with the id in front of the history \<open>m\<close> had and with \<open>current\<close> empty.
\<close>

theorem actionable_history_before_close:
  assumes "active s = Some m" and "valid_empty_mode m"
    and "onRequest item source = Request_value rarg"
  shows "(onAction item source rarg = Returns \<longrightarrow>
            resolve_actionable item source s =
              actionable_success_close item
                (push_history (item_id item) ((fst (on_trigger item s))\<lparr>error_slot := None\<rparr>))) \<and>
         (\<forall>e. onAction item source rarg = Throws e \<and>
              closeOn item \<noteq> Some ON_ERROR \<and> closeOn item \<noteq> Some ALWAYS \<and>
              (\<forall>h. onError item = Some h \<longrightarrow> h e source = Returns) \<longrightarrow>
            resolve_actionable item source s =
              actionable_success_close item
                (push_history (item_id item)
                   (notify_onError e item source
                      (set_error e item source (fst (on_trigger item s)))))) \<and>
         (onAction item source rarg = Returns \<or>
          (\<exists>e. onAction item source rarg = Throws e \<and>
               closeOn item \<noteq> Some ON_ERROR \<and> closeOn item \<noteq> Some ALWAYS \<and>
               (\<forall>h. onError item = Some h \<longrightarrow> h e source = Returns)) \<longrightarrow>
            snd (resolve_actionable item source s) = None \<and>
            map_option history (active (fst (resolve_actionable item source s))) =
              Some (item_id item # history m) \<and>
            map_option current (active (fst (resolve_actionable item source s))) = Some None)"
proof (intro conjI impI allI)
  assume "onAction item source rarg = Returns"
  then show "resolve_actionable item source s =
      actionable_success_close item
        (push_history (item_id item) ((fst (on_trigger item s))\<lparr>error_slot := None\<rparr>))"
    using resolve_actionable_success[OF assms] by simp
next
  fix e
  assume "onAction item source rarg = Throws e \<and>
      closeOn item \<noteq> Some ON_ERROR \<and> closeOn item \<noteq> Some ALWAYS \<and>
      (\<forall>h. onError item = Some h \<longrightarrow> h e source = Returns)"
  then show "resolve_actionable item source s =
      actionable_success_close item
        (push_history (item_id item)
           (notify_onError e item source (set_error e item source (fst (on_trigger item s)))))"
    using resolve_actionable_error_falls_through[OF assms] by simp
next
  assume h: "onAction item source rarg = Returns \<or>
      (\<exists>e. onAction item source rarg = Throws e \<and>
           closeOn item \<noteq> Some ON_ERROR \<and> closeOn item \<noteq> Some ALWAYS \<and>
           (\<forall>h. onError item = Some h \<longrightarrow> h e source = Returns))"
  have v: "valid_active s" using assms(1,2) by (rule valid_activeI)
  have t: "map_option history (active (fst (on_trigger item s))) = Some (history m)"
    using assms(1) by (simp add: on_trigger_effects)
  have vt: "valid_active (fst (on_trigger item s))"
    using v by (simp add: valid_active_on_trigger)
  from h have "snd (resolve_actionable item source s) = None \<and>
      map_option history (active (fst (resolve_actionable item source s))) =
        Some (item_id item # history m) \<and>
      map_option current (active (fst (resolve_actionable item source s))) = Some None"
  proof
    assume r: "onAction item source rarg = Returns"
    let ?s2 = "(fst (on_trigger item s))\<lparr>error_slot := None\<rparr>"
    have "map_option history (active ?s2) = Some (history m)" "valid_active ?s2"
      using t vt by (simp_all add: active_fields valid_active_steps)
    then show ?thesis
      using actionable_tail[OF assms(1,2), of ?s2 item] resolve_actionable_success[OF assms r]
      by simp
  next
    assume "\<exists>e. onAction item source rarg = Throws e \<and>
           closeOn item \<noteq> Some ON_ERROR \<and> closeOn item \<noteq> Some ALWAYS \<and>
           (\<forall>h. onError item = Some h \<longrightarrow> h e source = Returns)"
    then obtain e where e: "onAction item source rarg = Throws e"
      "closeOn item \<noteq> Some ON_ERROR" "closeOn item \<noteq> Some ALWAYS"
      "\<forall>h. onError item = Some h \<longrightarrow> h e source = Returns"
      by blast
    let ?s2 = "notify_onError e item source (set_error e item source (fst (on_trigger item s)))"
    have "map_option history (active ?s2) = Some (history m)" "valid_active ?s2"
      using t vt by (simp_all add: notify_effects set_error_effects valid_active_notify
          valid_active_steps)
    then show ?thesis
      using actionable_tail[OF assms(1,2), of ?s2 item]
        resolve_actionable_error_falls_through[OF assms e]
      by simp
  qed
  then show "snd (resolve_actionable item source s) = None"
    and "map_option history (active (fst (resolve_actionable item source s))) =
        Some (item_id item # history m)"
    and "map_option current (active (fst (resolve_actionable item source s))) = Some None"
    by simp_all
qed

lemma navigable_success_close_effects:
  assumes "valid_active s"
  shows "snd (navigable_success_close item s) = None"
    and "error_slot (fst (navigable_success_close item s)) = error_slot s"
    and "calls (fst (navigable_success_close item s)) = calls s"
proof -
  have c: "snd (resolve_close_action s) = None" using assms by (rule close_returns)
  obtain s' where r: "resolve_close_action s = (s', None)"
    using c by (cases "resolve_close_action s") auto
  have k: "error_slot s' = error_slot s" "calls s' = calls s"
    using close_keeps_slots[of s] r by simp_all
  show "snd (navigable_success_close item s) = None"
    by (simp add: navigable_success_close_def r)
  show "error_slot (fst (navigable_success_close item s)) = error_slot s"
    by (simp add: navigable_success_close_def r set_current_effects k)
  show "calls (fst (navigable_success_close item s)) = calls s"
    by (simp add: navigable_success_close_def r set_current_effects k)
qed

lemma close_then_clear:
  assumes "valid_active s"
  shows "(case resolve_close_action s of
            (s4, Some e') \<Rightarrow> (push_history i s4, Some e')
          | (s4, None) \<Rightarrow> (push_history i (set_current None s4), None)) =
         (push_history i (set_current None (fst (resolve_close_action s))), None)"
proof -
  have c: "snd (resolve_close_action s) = None" using assms by (rule close_returns)
  then obtain s' where r: "resolve_close_action s = (s', None)"
    by (cases "resolve_close_action s") auto
  show ?thesis by (simp add: r)
qed

lemma actionable_catch_effects:
  assumes "valid_active s" and "active s = Some m"
    and "\<forall>h. onError item = Some h \<longrightarrow> h e source = Returns"
  shows "snd (actionable_catch e item source s) = None"
    and "error_slot (fst (actionable_catch e item source s)) =
           Some \<lparr>err_error = e, err_item = item, err_source = source, err_mode = mode m\<rparr>"
    and "calls (fst (actionable_catch e item source s)) =
           calls s @ (case onError item of None \<Rightarrow> []
                      | Some h \<Rightarrow> [Called_onError (item_id item) e source])"
proof -
  let ?s3 = "notify_onError e item source (set_error e item source s)"
  have v3: "valid_active ?s3"
    using assms(1) by (simp add: valid_active_notify valid_active_steps)
  have e3: "error_slot ?s3 =
      Some \<lparr>err_error = e, err_item = item, err_source = source, err_mode = mode m\<rparr>"
    using assms(2) by (simp add: notify_effects set_error_effects)
  have c3: "calls ?s3 = calls s @ (case onError item of None \<Rightarrow> []
                      | Some h \<Rightarrow> [Called_onError (item_id item) e source])"
    by (simp add: notify_effects set_error_effects)
  have ret: "(case onError item of None \<Rightarrow> Returns | Some h \<Rightarrow> h e source) = Returns"
    using assms(3) by (cases "onError item") simp_all
  have vp: "valid_active (push_history (item_id item) ?s3)"
    using v3 by (simp add: valid_active_steps)
  have u: "actionable_catch e item source s =
      (if closeOn item = Some ON_ERROR \<or> closeOn item = Some ALWAYS
       then (push_history (item_id item) (set_current None (fst (resolve_close_action ?s3))), None)
       else actionable_success_close item (push_history (item_id item) ?s3))"
    by (simp add: actionable_catch_def Let_def ret close_then_clear[OF v3])
  show "snd (actionable_catch e item source s) = None"
    by (simp add: u actionable_success_close_effects(1)[OF vp])
  show "error_slot (fst (actionable_catch e item source s)) =
      Some \<lparr>err_error = e, err_item = item, err_source = source, err_mode = mode m\<rparr>"
    by (simp add: u actionable_success_close_effects(4)[OF vp] push_history_effects
        set_current_effects close_keeps_slots e3)
  show "calls (fst (actionable_catch e item source s)) =
      calls s @ (case onError item of None \<Rightarrow> []
                 | Some h \<Rightarrow> [Called_onError (item_id item) e source])"
    by (simp add: u actionable_success_close_effects(5)[OF vp] push_history_effects
        set_current_effects close_keeps_slots c3)
qed

lemma navigable_catch_effects:
  assumes "valid_active s" and "active s = Some m"
    and "\<forall>h. cfg_onError cfg = Some h \<longrightarrow> h e source = Returns"
  shows "snd (navigable_catch cfg e item source s) = None"
    and "error_slot (fst (navigable_catch cfg e item source s)) =
           Some \<lparr>err_error = e, err_item = item, err_source = source, err_mode = mode m\<rparr>"
    and "calls (fst (navigable_catch cfg e item source s)) =
           calls s @ (case cfg_onError cfg of None \<Rightarrow> []
                      | Some h \<Rightarrow> [Called_mode_onError (item_id item) e source])"
proof -
  let ?s3 = "notify_mode_onError cfg e item source (set_error e item source s)"
  have v3: "valid_active ?s3"
    using assms(1) by (simp add: valid_active_notify valid_active_steps)
  have e3: "error_slot ?s3 =
      Some \<lparr>err_error = e, err_item = item, err_source = source, err_mode = mode m\<rparr>"
    using assms(2) by (simp add: notify_effects set_error_effects)
  have c3: "calls ?s3 = calls s @ (case cfg_onError cfg of None \<Rightarrow> []
                      | Some h \<Rightarrow> [Called_mode_onError (item_id item) e source])"
    by (simp add: notify_effects set_error_effects)
  have ret: "(case cfg_onError cfg of None \<Rightarrow> Returns | Some h \<Rightarrow> h e source) = Returns"
    using assms(3) by (cases "cfg_onError cfg") simp_all
  have vp: "valid_active (push_history (item_id item) ?s3)"
    using v3 by (simp add: valid_active_steps)
  have u: "navigable_catch cfg e item source s =
      (if closeOn item = Some ON_ERROR \<or> closeOn item = Some ALWAYS
       then (push_history (item_id item) (set_current None (fst (resolve_close_action ?s3))), None)
       else navigable_success_close item (push_history (item_id item) ?s3))"
    by (simp add: navigable_catch_def Let_def ret close_then_clear[OF v3])
  show "snd (navigable_catch cfg e item source s) = None"
    by (simp add: u navigable_success_close_effects(1)[OF vp])
  show "error_slot (fst (navigable_catch cfg e item source s)) =
      Some \<lparr>err_error = e, err_item = item, err_source = source, err_mode = mode m\<rparr>"
    by (simp add: u navigable_success_close_effects(2)[OF vp] push_history_effects
        set_current_effects close_keeps_slots e3)
  show "calls (fst (navigable_catch cfg e item source s)) =
      calls s @ (case cfg_onError cfg of None \<Rightarrow> []
                 | Some h \<Rightarrow> [Called_mode_onError (item_id item) e source])"
    by (simp add: u navigable_success_close_effects(3)[OF vp] push_history_effects
        set_current_effects close_keeps_slots c3)
qed

lemma on_trigger_split:
  assumes "active s = Some m" and "valid_empty_mode m"
  shows "on_trigger item s = (fst (on_trigger item s), None)"
    and "valid_active (fst (on_trigger item s))"
    and "\<exists>m1. active (fst (on_trigger item s)) = Some m1 \<and> mode m1 = mode m"
proof -
  have v: "valid_active s" using assms by (rule valid_activeI)
  show "on_trigger item s = (fst (on_trigger item s), None)"
    using on_trigger_returns[OF v, of item] by (cases "on_trigger item s") auto
  show "valid_active (fst (on_trigger item s))"
    using v by (simp add: valid_active_on_trigger)
  have "map_option mode (active (fst (on_trigger item s))) = Some (mode m)"
    using assms(1) by (simp add: on_trigger_effects)
  then show "\<exists>m1. active (fst (on_trigger item s)) = Some m1 \<and> mode m1 = mode m"
    by (cases "active (fst (on_trigger item s))") auto
qed

text \<open>
  Claim C9. On a palette whose active mode \<open>m\<close> has a valid \<^verbatim>\<open>emptyMode\<close>: when
  \<^verbatim>\<open>onAction\<close> of an actionable item throws \<open>e\<close>, or the navigation hook of a navigable item
  does, the resolution ends without an error of its own, the error slot holds \<open>e\<close> with the
  item, the source and the name of the mode, and the item's \<^verbatim>\<open>onError\<close> (the mode's, for a
  navigable item) has been called once if it is there, provided that call itself does not
  throw; what the hook returns is not looked at. When the hook of the item returns, the
  error slot is empty.
\<close>

theorem hook_errors_captured:
  assumes "active s = Some m" and "valid_empty_mode m"
  shows "(\<forall>rarg e. onRequest item source = Request_value rarg \<and>
              onAction item source rarg = Throws e \<and>
              (\<forall>h. onError item = Some h \<longrightarrow> h e source = Returns) \<longrightarrow>
            snd (resolve_actionable item source s) = None \<and>
            error_slot (fst (resolve_actionable item source s)) =
              Some \<lparr>err_error = e, err_item = item, err_source = source, err_mode = mode m\<rparr> \<and>
            calls (fst (resolve_actionable item source s)) =
              calls s @ (case onError item of None \<Rightarrow> []
                         | Some h \<Rightarrow> [Called_onError (item_id item) e source])) \<and>
         (\<forall>rarg. onRequest item source = Request_value rarg \<and>
              onAction item source rarg = Returns \<longrightarrow>
            snd (resolve_actionable item source s) = None \<and>
            error_slot (fst (resolve_actionable item source s)) = None) \<and>
         (\<forall>e. navigate (config m) item = Throws e \<and>
              (\<forall>h. cfg_onError (config m) = Some h \<longrightarrow> h e source = Returns) \<longrightarrow>
            snd (resolve_navigable item source s) = None \<and>
            error_slot (fst (resolve_navigable item source s)) =
              Some \<lparr>err_error = e, err_item = item, err_source = source, err_mode = mode m\<rparr> \<and>
            calls (fst (resolve_navigable item source s)) =
              calls s @ (case cfg_onError (config m) of None \<Rightarrow> []
                         | Some h \<Rightarrow> [Called_mode_onError (item_id item) e source])) \<and>
         (navigate (config m) item = Returns \<longrightarrow>
            snd (resolve_navigable item source s) = None \<and>
            error_slot (fst (resolve_navigable item source s)) = None)"
proof -
  note sp0 = on_trigger_split[OF assms, of item]
  obtain s1 where t: "on_trigger item s = (s1, None)"
    using sp0(1) by blast
  have s1: "fst (on_trigger item s) = s1" by (simp add: t)
  note sp = sp0[unfolded s1]
  obtain m1 where m1: "active s1 = Some m1" "mode m1 = mode m"
    using sp(3) by blast
  have c1: "calls s1 = calls s" using on_trigger_effects(6)[of item s] by (simp add: s1)
  have vok: "valid_active (push_history (item_id item) (s1\<lparr>error_slot := None\<rparr>))"
    using sp(2) by (simp add: valid_active_steps)
  have a: "\<forall>rarg e. onRequest item source = Request_value rarg \<and>
              onAction item source rarg = Throws e \<and>
              (\<forall>h. onError item = Some h \<longrightarrow> h e source = Returns) \<longrightarrow>
            snd (resolve_actionable item source s) = None \<and>
            error_slot (fst (resolve_actionable item source s)) =
              Some \<lparr>err_error = e, err_item = item, err_source = source, err_mode = mode m\<rparr> \<and>
            calls (fst (resolve_actionable item source s)) =
              calls s @ (case onError item of None \<Rightarrow> []
                         | Some h \<Rightarrow> [Called_onError (item_id item) e source])"
  proof (intro allI impI)
    fix rarg e
    assume h: "onRequest item source = Request_value rarg \<and>
              onAction item source rarg = Throws e \<and>
              (\<forall>h. onError item = Some h \<longrightarrow> h e source = Returns)"
    then have r: "resolve_actionable item source s = actionable_catch e item source s1"
      using assms(1) t by (simp add: resolve_actionable_def)
    from h have oe: "\<forall>h. onError item = Some h \<longrightarrow> h e source = Returns" by simp
    show "snd (resolve_actionable item source s) = None \<and>
            error_slot (fst (resolve_actionable item source s)) =
              Some \<lparr>err_error = e, err_item = item, err_source = source, err_mode = mode m\<rparr> \<and>
            calls (fst (resolve_actionable item source s)) =
              calls s @ (case onError item of None \<Rightarrow> []
                         | Some h \<Rightarrow> [Called_onError (item_id item) e source])"
      using actionable_catch_effects[OF sp(2) m1(1) oe] m1(2) c1 by (simp add: r)
  qed
  have b: "\<forall>rarg. onRequest item source = Request_value rarg \<and>
              onAction item source rarg = Returns \<longrightarrow>
            snd (resolve_actionable item source s) = None \<and>
            error_slot (fst (resolve_actionable item source s)) = None"
  proof (intro allI impI)
    fix rarg
    assume h: "onRequest item source = Request_value rarg \<and> onAction item source rarg = Returns"
    then have r: "resolve_actionable item source s =
        actionable_success_close item (push_history (item_id item) (s1\<lparr>error_slot := None\<rparr>))"
      using resolve_actionable_success[OF assms] by (simp add: s1)
    show "snd (resolve_actionable item source s) = None \<and>
            error_slot (fst (resolve_actionable item source s)) = None"
      using actionable_success_close_effects(1,4)[OF vok, of item]
      by (simp add: r push_history_effects)
  qed
  have c: "\<forall>e. navigate (config m) item = Throws e \<and>
              (\<forall>h. cfg_onError (config m) = Some h \<longrightarrow> h e source = Returns) \<longrightarrow>
            snd (resolve_navigable item source s) = None \<and>
            error_slot (fst (resolve_navigable item source s)) =
              Some \<lparr>err_error = e, err_item = item, err_source = source, err_mode = mode m\<rparr> \<and>
            calls (fst (resolve_navigable item source s)) =
              calls s @ (case cfg_onError (config m) of None \<Rightarrow> []
                         | Some h \<Rightarrow> [Called_mode_onError (item_id item) e source])"
  proof (intro allI impI)
    fix e
    assume h: "navigate (config m) item = Throws e \<and>
              (\<forall>h. cfg_onError (config m) = Some h \<longrightarrow> h e source = Returns)"
    then have r: "resolve_navigable item source s = navigable_catch (config m) e item source s1"
      using assms(1) t by (simp add: resolve_navigable_def)
    from h have oe: "\<forall>h. cfg_onError (config m) = Some h \<longrightarrow> h e source = Returns" by simp
    show "snd (resolve_navigable item source s) = None \<and>
            error_slot (fst (resolve_navigable item source s)) =
              Some \<lparr>err_error = e, err_item = item, err_source = source, err_mode = mode m\<rparr> \<and>
            calls (fst (resolve_navigable item source s)) =
              calls s @ (case cfg_onError (config m) of None \<Rightarrow> []
                         | Some h \<Rightarrow> [Called_mode_onError (item_id item) e source])"
      using navigable_catch_effects[OF sp(2) m1(1) oe] m1(2) c1 by (simp add: r)
  qed
  have d: "navigate (config m) item = Returns \<longrightarrow>
            snd (resolve_navigable item source s) = None \<and>
            error_slot (fst (resolve_navigable item source s)) = None"
  proof
    assume h: "navigate (config m) item = Returns"
    then have r: "resolve_navigable item source s =
        navigable_success_close item (push_history (item_id item) (s1\<lparr>error_slot := None\<rparr>))"
      using assms(1) t by (simp add: resolve_navigable_def)
    show "snd (resolve_navigable item source s) = None \<and>
            error_slot (fst (resolve_navigable item source s)) = None"
      using navigable_success_close_effects(1,2)[OF vok, of item]
      by (simp add: r push_history_effects)
  qed
  show ?thesis using a b c d by blast
qed

lemma active_action_palette: "active action_palette = Some action_mode"
  by (simp add: active_def get_mode_def action_palette_def demo_palette_def action_mode_def
      demo_mode_def)

lemma action_mode_fields:
  "valid_empty_mode action_mode"
  "history action_mode = []"
  "mode action_mode = ''commands''"
  by (simp_all add: action_mode_def demo_mode_def demo_config_def valid_empty_mode_def)

lemma item_fields:
  "onRequest ok_item Submit = Request_value []"
  "onAction ok_item Submit [] = Returns"
  "item_id ok_item = ''a''"
  "closeOn ok_item = Some ON_SUCCESS"
  "onRequest failing_item Submit = Request_value []"
  "onAction failing_item Submit [] = Throws (Thrown ''boom'')"
  "item_id failing_item = ''b''"
  "closeOn failing_item = Some ON_SUCCESS"
  "onError failing_item = Some (\<lambda>_ _. Returns)"
  by (simp_all add: ok_item_def failing_item_def demo_item_def)

lemma results_after_ok:
  "map_option results (active (fst (actionable_success_close ok_item
     (push_history ''a'' ((fst (on_trigger ok_item action_palette))\<lparr>error_slot := None\<rparr>))))) =
   Some [ok_item]"
  by (simp add: actionable_success_close_def push_history_def on_trigger_def set_current_def
      resolve_close_action_def search_and_update_def empty_query_results_def select_first_def
      upd_active_def upd_mode_def active_def get_mode_def action_palette_def demo_palette_def
      action_mode_def demo_mode_def demo_config_def item_fields Let_def)

theorem actionable_history_before_close_witness:
  "snd (resolve_actionable ok_item Submit action_palette) = None \<and>
   map_option history (active (fst (resolve_actionable ok_item Submit action_palette))) =
     Some [''a''] \<and>
   map_option current (active (fst (resolve_actionable ok_item Submit action_palette))) =
     Some None \<and>
   map_option results (active (fst (resolve_actionable ok_item Submit action_palette))) =
     Some [ok_item] \<and>
   snd (resolve_actionable failing_item Submit action_palette) = None \<and>
   map_option history (active (fst (resolve_actionable failing_item Submit action_palette))) =
     Some [''b''] \<and>
   map_option current (active (fst (resolve_actionable failing_item Submit action_palette))) =
     Some None"
proof -
  note ok = actionable_history_before_close[OF active_action_palette action_mode_fields(1)
      item_fields(1)]
  note ko = actionable_history_before_close[OF active_action_palette action_mode_fields(1)
      item_fields(5)]
  have 1: "snd (resolve_actionable ok_item Submit action_palette) = None \<and>
     map_option history (active (fst (resolve_actionable ok_item Submit action_palette))) =
       Some [''a''] \<and>
     map_option current (active (fst (resolve_actionable ok_item Submit action_palette))) =
       Some None"
    using ok[THEN conjunct2, THEN conjunct2] by (simp add: item_fields action_mode_fields)
  have 2: "map_option results (active (fst (resolve_actionable ok_item Submit action_palette))) =
     Some [ok_item]"
    using ok[THEN conjunct1] results_after_ok by (simp add: item_fields)
  have 3: "snd (resolve_actionable failing_item Submit action_palette) = None \<and>
     map_option history (active (fst (resolve_actionable failing_item Submit action_palette))) =
       Some [''b''] \<and>
     map_option current (active (fst (resolve_actionable failing_item Submit action_palette))) =
       Some None"
    using ko[THEN conjunct2, THEN conjunct2] by (simp add: item_fields action_mode_fields)
  show ?thesis using 1 2 3 by simp
qed

lemma active_nav_palette: "active nav_palette = Some nav_mode"
  by (simp add: active_def get_mode_def nav_palette_def demo_palette_def nav_mode_def
      demo_mode_def)

lemma nav_mode_fields:
  "valid_empty_mode nav_mode"
  "mode nav_mode = ''pages''"
  "navigate (config nav_mode) nav_item = Throws (Thrown ''offline'')"
  "cfg_onError (config nav_mode) = Some (\<lambda>_ _. Returns)"
  by (simp_all add: nav_mode_def demo_mode_def demo_config_def valid_empty_mode_def navigate_def
      nav_item_def demo_item_def)

lemma nav_item_id: "item_id nav_item = ''n''"
  by (simp add: nav_item_def demo_item_def)

lemma calls_start: "calls action_palette = []" "calls nav_palette = []"
  by (simp_all add: action_palette_def nav_palette_def demo_palette_def)

theorem hook_errors_captured_witness:
  "snd (resolve_actionable failing_item Submit action_palette) = None \<and>
   error_slot (fst (resolve_actionable failing_item Submit action_palette)) =
     Some \<lparr>err_error = Thrown ''boom'', err_item = failing_item, err_source = Submit,
           err_mode = ''commands''\<rparr> \<and>
   calls (fst (resolve_actionable failing_item Submit action_palette)) =
     [Called_onError ''b'' (Thrown ''boom'') Submit] \<and>
   error_slot (fst (resolve_actionable ok_item Submit action_palette)) = None \<and>
   snd (resolve_navigable nav_item Click nav_palette) = None \<and>
   error_slot (fst (resolve_navigable nav_item Click nav_palette)) =
     Some \<lparr>err_error = Thrown ''offline'', err_item = nav_item, err_source = Click,
           err_mode = ''pages''\<rparr> \<and>
   calls (fst (resolve_navigable nav_item Click nav_palette)) =
     [Called_mode_onError ''n'' (Thrown ''offline'') Click]"
proof -
  note a = hook_errors_captured[OF active_action_palette action_mode_fields(1)]
  note n = hook_errors_captured[OF active_nav_palette nav_mode_fields(1)]
  have 1: "snd (resolve_actionable failing_item Submit action_palette) = None \<and>
     error_slot (fst (resolve_actionable failing_item Submit action_palette)) =
       Some \<lparr>err_error = Thrown ''boom'', err_item = failing_item, err_source = Submit,
             err_mode = ''commands''\<rparr> \<and>
     calls (fst (resolve_actionable failing_item Submit action_palette)) =
       [Called_onError ''b'' (Thrown ''boom'') Submit]"
    using a[of failing_item Submit, THEN conjunct1, rule_format, of "[]" "Thrown ''boom''"]
    by (simp add: item_fields action_mode_fields calls_start)
  have 2: "error_slot (fst (resolve_actionable ok_item Submit action_palette)) = None"
    using a[of ok_item Submit, THEN conjunct2, THEN conjunct1, rule_format, of "[]"]
    by (simp add: item_fields)
  have 3: "snd (resolve_navigable nav_item Click nav_palette) = None \<and>
     error_slot (fst (resolve_navigable nav_item Click nav_palette)) =
       Some \<lparr>err_error = Thrown ''offline'', err_item = nav_item, err_source = Click,
             err_mode = ''pages''\<rparr> \<and>
     calls (fst (resolve_navigable nav_item Click nav_palette)) =
       [Called_mode_onError ''n'' (Thrown ''offline'') Click]"
    using n[of nav_item Click, THEN conjunct2, THEN conjunct2, THEN conjunct1, rule_format,
        of "Thrown ''offline''"]
    by (simp add: nav_mode_fields calls_start nav_item_id)
  show ?thesis using 1 2 3 by simp
qed

subsection \<open>Input handling\<close>

lemma wf_modes_entry:
  assumes "wf_modes s" and "km \<in> set (modes s)"
  shows "get_mode s (fst km) = Some (snd km)" and "mode (snd km) = fst km"
proof -
  have d: "distinct (map fst (modes s))" using assms(1) by (simp add: wf_modes_def)
  have "(fst km, snd km) \<in> set (modes s)" using assms(2) by simp
  then show "get_mode s (fst km) = Some (snd km)"
    using d by (simp add: get_mode_def)
  show "mode (snd km) = fst km"
    using assms by (auto simp: wf_modes_def list_all_iff)
qed

lemma scan_modes_Some:
  assumes "scan_modes ms text = Some k"
  shows "\<exists>i<length ms. mode (snd (ms ! i)) = k \<and> prefix (cfg_prefix (config (snd (ms ! i)))) text \<and>
           (\<forall>j<i. \<not> prefix (cfg_prefix (config (snd (ms ! j)))) text)"
proof -
  obtain km where f: "find (\<lambda>km. prefix (cfg_prefix (config (snd km))) text) ms = Some km"
    and k: "mode (snd km) = k"
    using assms by (auto simp: scan_modes_def)
  from f obtain i where "i < length ms" "prefix (cfg_prefix (config (snd (ms ! i)))) text"
    "km = ms ! i" "\<forall>j<i. \<not> prefix (cfg_prefix (config (snd (ms ! j)))) text"
    by (auto simp: find_Some_iff)
  then show ?thesis using k by blast
qed

lemma search_and_update_keeps_mode:
  "mode_state (fst (search_and_update q s)) = mode_state s"
  "paletteMode (fst (search_and_update q s)) = paletteMode s"
  by (auto simp: search_and_update_def select_first_fields upd_active_fields
      split: option.splits sum.splits)

lemma on_input_search_keeps_mode:
  "mode_state (fst (on_input_search f text s)) = mode_state s"
  "paletteMode (fst (on_input_search f text s)) = paletteMode s"
  by (auto simp: on_input_search_def Let_def search_and_update_keeps_mode split: option.splits)

lemma on_input_switch:
  assumes "active s = Some m"
    and "\<not> prefix (cfg_prefix (config m)) text \<or> cfg_prefix (config m) = []"
    and "scan_modes (modes s) text = Some k" and "k \<noteq> paletteMode s"
    and "get_mode s k = Some m'"
  shows "on_input text s =
           search_and_update (drop (length (cfg_prefix (config m'))) text)
             (s\<lparr>searchText := text, mode_state := k, paletteMode := k, debounce_id := None\<rparr>)"
proof -
  have a: "active (s\<lparr>searchText := text\<rparr>) = Some m" using assms(1) by (simp add: active_fields)
  have a': "active (s\<lparr>searchText := text, mode_state := k, paletteMode := k\<rparr>) = Some m'"
    using assms(5) by (simp add: active_def get_mode_def)
  have g: "get_mode (s\<lparr>searchText := text\<rparr>) k = Some m'"
    using assms(5) by (simp add: get_mode_fields)
  show ?thesis
    using assms(2,3,4) by (simp add: on_input_def Let_def a g on_input_search_def a')
qed

lemma on_input_no_match:
  assumes "active s = Some m" and "scan_modes (modes s) text = None"
  shows "0 < debounce s \<Longrightarrow>
           on_input text s =
             (s\<lparr>searchText := text,
                debounce_id := Some (drop (length (cfg_prefix (config m))) text)\<rparr>, None)"
    and "debounce s \<le> 0 \<Longrightarrow>
           on_input text s =
             search_and_update (drop (length (cfg_prefix (config m))) text)
               (s\<lparr>searchText := text, debounce_id := None\<rparr>)"
proof -
  have a: "active (s\<lparr>searchText := text\<rparr>) = Some m" using assms(1) by (simp add: active_fields)
  show "0 < debounce s \<Longrightarrow>
           on_input text s =
             (s\<lparr>searchText := text,
                debounce_id := Some (drop (length (cfg_prefix (config m))) text)\<rparr>, None)"
    using assms(2) by (simp add: on_input_def Let_def a on_input_search_def)
  show "debounce s \<le> 0 \<Longrightarrow>
           on_input text s =
             search_and_update (drop (length (cfg_prefix (config m))) text)
               (s\<lparr>searchText := text, debounce_id := None\<rparr>)"
    using assms(2) by (simp add: on_input_def Let_def a on_input_search_def)
qed

lemma search_and_update_found:
  assumes "active s = Some m"
    and "(if q = [] then empty_query_results m
          else Inr (sorter (sort_cfg m) (searcher_search (searcher m) q))) = Inr res"
  shows "snd (search_and_update q s) = None"
    and "map_option results (active (fst (search_and_update q s))) = Some res"
    and "selected (fst (search_and_update q s)) =
           (selected s)\<lparr>sel_id := (if res = [] then None else Some (item_id (res ! 0))),
                         idx := (if res = [] then - 1 else 0)\<rparr>"
proof -
  have e: "search_and_update q s =
      (select_first res (upd_active (\<lambda>m. m\<lparr>results := res\<rparr>) s), None)"
    using assms by (simp add: search_and_update_def)
  show "snd (search_and_update q s) = None" using e by simp
  show "map_option results (active (fst (search_and_update q s))) = Some res"
    using e assms(1) by (simp add: active_select_first active_upd_active)
  show "selected (fst (search_and_update q s)) =
           (selected s)\<lparr>sel_id := (if res = [] then None else Some (item_id (res ! 0))),
                         idx := (if res = [] then - 1 else 0)\<rparr>"
    using e by (simp add: select_first_def upd_active_fields)
qed

text \<open>
  Claim C1, as the code has it. On a palette whose modes are well formed, whose active mode
  is \<open>m\<close> and whose mode name follows the active mode: \<^verbatim>\<open>on_input\<close> scans the modes when the
  text does not start with the prefix of \<open>m\<close>, and also when that prefix is empty. The scan
  yields the first mode, in registration order, whose prefix is a prefix of the text. When
  that mode is not the active one it becomes the active one, and the text without its prefix
  is searched at once; it never is the active one when the text does not start with the
  prefix of \<open>m\<close>. With the modes \<open>commands\<close> (prefix \<open>>\<close>) and \<open>default\<close> (prefix empty)
  registered in this order and \<open>default\<close> active, the text \<open>>foo\<close> makes \<open>commands\<close> the
  active mode and searches \<open>foo\<close> in it.

  When no prefix matches, the active mode stays, and the text is handled as input of the
  active mode: it loses as many leading characters as the prefix of \<open>m\<close> has. If the
  debounce delay is positive, the search of what remains is left to the debounce timer, and
  the input leaves results and selection untouched. Otherwise what remains is searched in
  \<open>m\<close> at once: the results are those of this search (those of the empty-query policy if
  nothing remains of the text), and the selection is its first result, so that results and
  selection are empty only if the search finds nothing. There is no error, unless nothing
  remains of the text and \<^verbatim>\<open>emptyMode\<close> is invalid.
\<close>

theorem on_input_mode_switch:
  assumes "wf_modes s" and "active s = Some m" and "paletteMode s = mode_state s"
  shows "(\<forall>k. (\<not> prefix (cfg_prefix (config m)) text \<or> cfg_prefix (config m) = []) \<and>
              scan_modes (modes s) text = Some k \<and> k \<noteq> mode_state s \<longrightarrow>
            (\<exists>m'. get_mode s k = Some m' \<and> prefix (cfg_prefix (config m')) text \<and>
                  on_input text s =
                    search_and_update (drop (length (cfg_prefix (config m'))) text)
                      (s\<lparr>searchText := text, mode_state := k, paletteMode := k,
                         debounce_id := None\<rparr>))) \<and>
         (\<forall>k. \<not> prefix (cfg_prefix (config m)) text \<and> scan_modes (modes s) text = Some k \<longrightarrow>
            k \<noteq> mode_state s) \<and>
         (\<forall>k. scan_modes (modes s) text = Some k \<longrightarrow>
            (\<exists>i<length (modes s). fst (modes s ! i) = k \<and>
               prefix (cfg_prefix (config (snd (modes s ! i)))) text \<and>
               (\<forall>j<i. \<not> prefix (cfg_prefix (config (snd (modes s ! j)))) text))) \<and>
         (scan_modes (modes s) text = None \<longrightarrow>
            mode_state (fst (on_input text s)) = mode_state s \<and>
            paletteMode (fst (on_input text s)) = paletteMode s \<and>
            (0 < debounce s \<longrightarrow>
               on_input text s =
                 (s\<lparr>searchText := text,
                    debounce_id := Some (drop (length (cfg_prefix (config m))) text)\<rparr>, None)) \<and>
            (debounce s \<le> 0 \<longrightarrow>
               on_input text s =
                 search_and_update (drop (length (cfg_prefix (config m))) text)
                   (s\<lparr>searchText := text, debounce_id := None\<rparr>)) \<and>
            (\<forall>res. debounce s \<le> 0 \<and>
                  (if drop (length (cfg_prefix (config m))) text = [] then empty_query_results m
                   else Inr (sorter (sort_cfg m)
                          (searcher_search (searcher m)
                             (drop (length (cfg_prefix (config m))) text)))) = Inr res \<longrightarrow>
               snd (on_input text s) = None \<and>
               map_option results (active (fst (on_input text s))) = Some res \<and>
               selected (fst (on_input text s)) =
                 (selected s)\<lparr>sel_id := (if res = [] then None else Some (item_id (res ! 0))),
                               idx := (if res = [] then - 1 else 0)\<rparr>)) \<and>
         (\<forall>c d mc md. modes s = [(c, mc), (d, md)] \<and> cfg_prefix (config mc) = ''>'' \<and>
              cfg_prefix (config md) = [] \<and> mode_state s = d \<and> text = ''>foo'' \<longrightarrow>
            on_input text s =
              search_and_update ''foo''
                (s\<lparr>searchText := ''>foo'', mode_state := c, paletteMode := c,
                   debounce_id := None\<rparr>))"
proof -
  have found: "\<exists>i<length (modes s). fst (modes s ! i) = k \<and>
               prefix (cfg_prefix (config (snd (modes s ! i)))) text \<and>
               (\<forall>j<i. \<not> prefix (cfg_prefix (config (snd (modes s ! j)))) text)"
    if sk: "scan_modes (modes s) text = Some k" for k
  proof -
    obtain i where i: "i < length (modes s)" "mode (snd (modes s ! i)) = k"
      "prefix (cfg_prefix (config (snd (modes s ! i)))) text"
      "\<forall>j<i. \<not> prefix (cfg_prefix (config (snd (modes s ! j)))) text"
      using scan_modes_Some[OF sk] by blast
    have "modes s ! i \<in> set (modes s)" using i(1) by simp
    then have "fst (modes s ! i) = k" using wf_modes_entry(2)[OF assms(1)] i(2) by simp
    then show ?thesis using i by blast
  qed
  have entry: "\<exists>m'. get_mode s k = Some m' \<and> prefix (cfg_prefix (config m')) text"
    if sk: "scan_modes (modes s) text = Some k" for k
  proof -
    obtain i where i: "i < length (modes s)" "fst (modes s ! i) = k"
      "prefix (cfg_prefix (config (snd (modes s ! i)))) text"
      using found[OF sk] by blast
    have "modes s ! i \<in> set (modes s)" using i(1) by simp
    then have "get_mode s k = Some (snd (modes s ! i))"
      using wf_modes_entry(1)[OF assms(1)] i(2) by auto
    then show ?thesis using i(3) by blast
  qed
  have 1: "\<forall>k. (\<not> prefix (cfg_prefix (config m)) text \<or> cfg_prefix (config m) = []) \<and>
              scan_modes (modes s) text = Some k \<and> k \<noteq> mode_state s \<longrightarrow>
            (\<exists>m'. get_mode s k = Some m' \<and> prefix (cfg_prefix (config m')) text \<and>
                  on_input text s =
                    search_and_update (drop (length (cfg_prefix (config m'))) text)
                      (s\<lparr>searchText := text, mode_state := k, paletteMode := k,
                         debounce_id := None\<rparr>))"
  proof (intro allI impI)
    fix k
    assume h: "(\<not> prefix (cfg_prefix (config m)) text \<or> cfg_prefix (config m) = []) \<and>
              scan_modes (modes s) text = Some k \<and> k \<noteq> mode_state s"
    then obtain m' where mk: "get_mode s k = Some m'" "prefix (cfg_prefix (config m')) text"
      using entry by blast
    have "on_input text s =
        search_and_update (drop (length (cfg_prefix (config m'))) text)
          (s\<lparr>searchText := text, mode_state := k, paletteMode := k, debounce_id := None\<rparr>)"
      using on_input_switch[OF assms(2) _ _ _ mk(1), of "text"] h assms(3) by simp
    then show "\<exists>m'. get_mode s k = Some m' \<and> prefix (cfg_prefix (config m')) text \<and>
                  on_input text s =
                    search_and_update (drop (length (cfg_prefix (config m'))) text)
                      (s\<lparr>searchText := text, mode_state := k, paletteMode := k,
                         debounce_id := None\<rparr>)"
      using mk by blast
  qed
  have 2: "\<forall>k. \<not> prefix (cfg_prefix (config m)) text \<and> scan_modes (modes s) text = Some k \<longrightarrow>
            k \<noteq> mode_state s"
  proof (intro allI impI)
    fix k
    assume h: "\<not> prefix (cfg_prefix (config m)) text \<and> scan_modes (modes s) text = Some k"
    then obtain m' where mk: "get_mode s k = Some m'" "prefix (cfg_prefix (config m')) text"
      using entry by blast
    show "k \<noteq> mode_state s"
    proof
      assume "k = mode_state s"
      then have "m' = m" using mk(1) assms(2) by (simp add: active_def)
      then show False using mk(2) h by simp
    qed
  qed
  have 3: "\<forall>k. scan_modes (modes s) text = Some k \<longrightarrow>
            (\<exists>i<length (modes s). fst (modes s ! i) = k \<and>
               prefix (cfg_prefix (config (snd (modes s ! i)))) text \<and>
               (\<forall>j<i. \<not> prefix (cfg_prefix (config (snd (modes s ! j)))) text))"
    using found by blast
  have 4: "scan_modes (modes s) text = None \<longrightarrow>
            mode_state (fst (on_input text s)) = mode_state s \<and>
            paletteMode (fst (on_input text s)) = paletteMode s \<and>
            (0 < debounce s \<longrightarrow>
               on_input text s =
                 (s\<lparr>searchText := text,
                    debounce_id := Some (drop (length (cfg_prefix (config m))) text)\<rparr>, None)) \<and>
            (debounce s \<le> 0 \<longrightarrow>
               on_input text s =
                 search_and_update (drop (length (cfg_prefix (config m))) text)
                   (s\<lparr>searchText := text, debounce_id := None\<rparr>)) \<and>
            (\<forall>res. debounce s \<le> 0 \<and>
                  (if drop (length (cfg_prefix (config m))) text = [] then empty_query_results m
                   else Inr (sorter (sort_cfg m)
                          (searcher_search (searcher m)
                             (drop (length (cfg_prefix (config m))) text)))) = Inr res \<longrightarrow>
               snd (on_input text s) = None \<and>
               map_option results (active (fst (on_input text s))) = Some res \<and>
               selected (fst (on_input text s)) =
                 (selected s)\<lparr>sel_id := (if res = [] then None else Some (item_id (res ! 0))),
                               idx := (if res = [] then - 1 else 0)\<rparr>)"
  proof
    assume none: "scan_modes (modes s) text = None"
    let ?q = "drop (length (cfg_prefix (config m))) text"
    let ?s = "s\<lparr>searchText := text, debounce_id := None\<rparr>"
    note nm = on_input_no_match[OF assms(2) none]
    have a: "active ?s = Some m" using assms(2) by (simp add: active_fields)
    have keep: "mode_state (fst (on_input text s)) = mode_state s"
      "paletteMode (fst (on_input text s)) = paletteMode s"
    proof -
      show "mode_state (fst (on_input text s)) = mode_state s"
      proof (cases "0 < debounce s")
        case True
        then show ?thesis using nm(1) by simp
      next
        case False
        then have "on_input text s = search_and_update ?q ?s" using nm(2) by simp
        then show ?thesis by (simp add: search_and_update_keeps_mode)
      qed
      show "paletteMode (fst (on_input text s)) = paletteMode s"
      proof (cases "0 < debounce s")
        case True
        then show ?thesis using nm(1) by simp
      next
        case False
        then have "on_input text s = search_and_update ?q ?s" using nm(2) by simp
        then show ?thesis by (simp add: search_and_update_keeps_mode)
      qed
    qed
    have searched: "\<forall>res. debounce s \<le> 0 \<and>
                  (if ?q = [] then empty_query_results m
                   else Inr (sorter (sort_cfg m) (searcher_search (searcher m) ?q))) = Inr res \<longrightarrow>
               snd (on_input text s) = None \<and>
               map_option results (active (fst (on_input text s))) = Some res \<and>
               selected (fst (on_input text s)) =
                 (selected s)\<lparr>sel_id := (if res = [] then None else Some (item_id (res ! 0))),
                               idx := (if res = [] then - 1 else 0)\<rparr>"
    proof (intro allI impI)
      fix res
      assume h: "debounce s \<le> 0 \<and>
                  (if ?q = [] then empty_query_results m
                   else Inr (sorter (sort_cfg m) (searcher_search (searcher m) ?q))) = Inr res"
      have e: "on_input text s = search_and_update ?q ?s" using nm(2) h by simp
      note f = search_and_update_found[OF a h[THEN conjunct2]]
      show "snd (on_input text s) = None \<and>
               map_option results (active (fst (on_input text s))) = Some res \<and>
               selected (fst (on_input text s)) =
                 (selected s)\<lparr>sel_id := (if res = [] then None else Some (item_id (res ! 0))),
                               idx := (if res = [] then - 1 else 0)\<rparr>"
        unfolding e using f by simp
    qed
    show "mode_state (fst (on_input text s)) = mode_state s \<and>
            paletteMode (fst (on_input text s)) = paletteMode s \<and>
            (0 < debounce s \<longrightarrow>
               on_input text s =
                 (s\<lparr>searchText := text, debounce_id := Some ?q\<rparr>, None)) \<and>
            (debounce s \<le> 0 \<longrightarrow> on_input text s = search_and_update ?q ?s) \<and>
            (\<forall>res. debounce s \<le> 0 \<and>
                  (if ?q = [] then empty_query_results m
                   else Inr (sorter (sort_cfg m) (searcher_search (searcher m) ?q))) = Inr res \<longrightarrow>
               snd (on_input text s) = None \<and>
               map_option results (active (fst (on_input text s))) = Some res \<and>
               selected (fst (on_input text s)) =
                 (selected s)\<lparr>sel_id := (if res = [] then None else Some (item_id (res ! 0))),
                               idx := (if res = [] then - 1 else 0)\<rparr>)"
      using keep nm searched by (intro conjI impI)
  qed
  have 5: "\<forall>c d mc md. modes s = [(c, mc), (d, md)] \<and> cfg_prefix (config mc) = ''>'' \<and>
              cfg_prefix (config md) = [] \<and> mode_state s = d \<and> text = ''>foo'' \<longrightarrow>
            on_input text s =
              search_and_update ''foo''
                (s\<lparr>searchText := ''>foo'', mode_state := c, paletteMode := c,
                   debounce_id := None\<rparr>)"
  proof (intro allI impI)
    fix c d mc md
    assume h: "modes s = [(c, mc), (d, md)] \<and> cfg_prefix (config mc) = ''>'' \<and>
              cfg_prefix (config md) = [] \<and> mode_state s = d \<and> text = ''>foo''"
    have cd: "c \<noteq> d" "mode mc = c"
      using assms(1) h by (auto simp: wf_modes_def)
    have md: "m = md" using assms(2) h cd by (simp add: active_def get_mode_def)
    have sc: "scan_modes (modes s) text = Some c"
      using h cd by (simp add: scan_modes_def)
    have g: "get_mode s c = Some mc" using h by (simp add: get_mode_def)
    show "on_input text s =
              search_and_update ''foo''
                (s\<lparr>searchText := ''>foo'', mode_state := c, paletteMode := c,
                   debounce_id := None\<rparr>)"
      using on_input_switch[OF assms(2) _ sc _ g] h md cd assms(3) by simp
  qed
  show ?thesis using 1 2 3 4 5 by (intro conjI)
qed

lemmas palette_eval =
  on_input_def on_input_search_def scan_modes_def search_and_update_def empty_query_results_def
  searcher_search_def select_first_def set_empty_results_def upd_active_def upd_mode_def
  active_def get_mode_def demo_palette_def demo_mode_def demo_config_def demo_item_def
  defaultItemSorter_def Let_def

text \<open>
  Claim C1 as the spec states it fails twice. With the mode of the empty prefix registered
  first, the text \<open>>foo\<close> typed in that mode leaves it active: the scan stops at the empty
  prefix. And when no prefix matches the text, results and selection are not cleared as
  such: the text \<open>x\<close> typed in the mode \<open>commands\<close> is sliced by the length of its prefix,
  and the empty query that remains shows every item, the first of them selected.
\<close>

theorem on_input_counterexample:
  "paletteMode (fst (on_input ''>foo'' default_first)) = ''default'' \<and>
   mode_state (fst (on_input ''>foo'' default_first)) = ''default'' \<and>
   scan_modes (modes no_empty_prefix) ''x'' = None \<and>
   snd (on_input ''x'' no_empty_prefix) = None \<and>
   map_option results (active (fst (on_input ''x'' no_empty_prefix))) = Some [demo_item ''a''] \<and>
   selected (fst (on_input ''x'' no_empty_prefix)) = \<lparr>el = None, sel_id = Some ''a'', idx = 0\<rparr>"
  by (simp add: default_first_def no_empty_prefix_def palette_eval)

lemma commands_first_facts:
  "wf_modes commands_first"
  "active commands_first =
     Some (demo_mode ''default'' [] ALL_ITEMS [demo_item ''home''])"
  "paletteMode commands_first = mode_state commands_first"
  "mode_state commands_first = ''default''"
  "modes commands_first =
     [(''commands'', demo_mode ''commands'' ''>'' ALL_ITEMS [demo_item ''foo'', demo_item ''bar'']),
      (''default'', demo_mode ''default'' [] ALL_ITEMS [demo_item ''home''])]"
  by (simp_all add: commands_first_def wf_modes_def active_def get_mode_def demo_palette_def
      demo_mode_def)

lemma commands_first_search:
  "map_option results (active (fst (search_and_update ''foo''
     (commands_first\<lparr>searchText := ''>foo'', mode_state := ''commands'',
        paletteMode := ''commands'', debounce_id := None\<rparr>)))) = Some [demo_item ''foo'']"
  "paletteMode (fst (search_and_update ''foo''
     (commands_first\<lparr>searchText := ''>foo'', mode_state := ''commands'',
        paletteMode := ''commands'', debounce_id := None\<rparr>))) = ''commands''"
  "mode_state (fst (search_and_update ''foo''
     (commands_first\<lparr>searchText := ''>foo'', mode_state := ''commands'',
        paletteMode := ''commands'', debounce_id := None\<rparr>))) = ''commands''"
  by (simp_all add: commands_first_def palette_eval)

lemma no_empty_prefix_facts:
  "wf_modes no_empty_prefix"
  "active no_empty_prefix = Some (demo_mode ''commands'' ''>'' ALL_ITEMS [demo_item ''a''])"
  "paletteMode no_empty_prefix = mode_state no_empty_prefix"
  "scan_modes (modes no_empty_prefix) ''xa'' = None"
  "scan_modes (modes no_empty_prefix) ''xq'' = None"
  "debounce no_empty_prefix \<le> 0"
  "selected no_empty_prefix = \<lparr>el = None, sel_id = None, idx = - 1\<rparr>"
  by (simp_all add: no_empty_prefix_def wf_modes_def active_def get_mode_def demo_palette_def
      demo_mode_def demo_config_def scan_modes_def)

lemma no_empty_prefix_search:
  "(if drop (length (cfg_prefix (config (demo_mode ''commands'' ''>'' ALL_ITEMS [demo_item ''a''])))) ''xa'' = []
    then empty_query_results (demo_mode ''commands'' ''>'' ALL_ITEMS [demo_item ''a''])
    else Inr (sorter (sort_cfg (demo_mode ''commands'' ''>'' ALL_ITEMS [demo_item ''a'']))
           (searcher_search (searcher (demo_mode ''commands'' ''>'' ALL_ITEMS [demo_item ''a'']))
              (drop (length (cfg_prefix (config (demo_mode ''commands'' ''>'' ALL_ITEMS [demo_item ''a''])))) ''xa'')))) =
   Inr [demo_item ''a'']"
  "(if drop (length (cfg_prefix (config (demo_mode ''commands'' ''>'' ALL_ITEMS [demo_item ''a''])))) ''xq'' = []
    then empty_query_results (demo_mode ''commands'' ''>'' ALL_ITEMS [demo_item ''a''])
    else Inr (sorter (sort_cfg (demo_mode ''commands'' ''>'' ALL_ITEMS [demo_item ''a'']))
           (searcher_search (searcher (demo_mode ''commands'' ''>'' ALL_ITEMS [demo_item ''a'']))
              (drop (length (cfg_prefix (config (demo_mode ''commands'' ''>'' ALL_ITEMS [demo_item ''a''])))) ''xq'')))) =
   Inr []"
  by (simp_all add: demo_mode_def demo_config_def searcher_search_def defaultItemSorter_def
      demo_item_def)

theorem on_input_mode_switch_witness:
  "wf_modes commands_first \<and>
   paletteMode commands_first = mode_state commands_first \<and>
   mode_state commands_first = ''default'' \<and>
   paletteMode (fst (on_input ''>foo'' commands_first)) = ''commands'' \<and>
   mode_state (fst (on_input ''>foo'' commands_first)) = ''commands'' \<and>
   map_option results (active (fst (on_input ''>foo'' commands_first))) = Some [demo_item ''foo''] \<and>
   wf_modes no_empty_prefix \<and>
   paletteMode no_empty_prefix = mode_state no_empty_prefix \<and>
   scan_modes (modes no_empty_prefix) ''xa'' = None \<and>
   scan_modes (modes no_empty_prefix) ''xq'' = None \<and>
   snd (on_input ''xa'' no_empty_prefix) = None \<and>
   map_option results (active (fst (on_input ''xa'' no_empty_prefix))) = Some [demo_item ''a''] \<and>
   selected (fst (on_input ''xa'' no_empty_prefix)) = \<lparr>el = None, sel_id = Some ''a'', idx = 0\<rparr> \<and>
   snd (on_input ''xq'' no_empty_prefix) = None \<and>
   map_option results (active (fst (on_input ''xq'' no_empty_prefix))) = Some [] \<and>
   selected (fst (on_input ''xq'' no_empty_prefix)) = \<lparr>el = None, sel_id = None, idx = - 1\<rparr>"
proof -
  note t = on_input_mode_switch[OF commands_first_facts(1,2,3), of "''>foo''"]
  have sw: "on_input ''>foo'' commands_first =
      search_and_update ''foo''
        (commands_first\<lparr>searchText := ''>foo'', mode_state := ''commands'',
           paletteMode := ''commands'', debounce_id := None\<rparr>)"
    using t[THEN conjunct2, THEN conjunct2, THEN conjunct2, THEN conjunct2, rule_format,
        of "''commands''" _ "''default''"]
    by (simp add: commands_first_facts(4,5) demo_mode_def demo_config_def)
  note ua = on_input_mode_switch[OF no_empty_prefix_facts(1,2,3), of "''xa''",
      THEN conjunct2, THEN conjunct2, THEN conjunct2, THEN conjunct1, rule_format,
      OF no_empty_prefix_facts(4)]
  note xa = ua[THEN conjunct2, THEN conjunct2, THEN conjunct2, THEN conjunct2, rule_format,
      OF conjI[OF no_empty_prefix_facts(6) no_empty_prefix_search(1)]]
  note uq = on_input_mode_switch[OF no_empty_prefix_facts(1,2,3), of "''xq''",
      THEN conjunct2, THEN conjunct2, THEN conjunct2, THEN conjunct1, rule_format,
      OF no_empty_prefix_facts(5)]
  note xq = uq[THEN conjunct2, THEN conjunct2, THEN conjunct2, THEN conjunct2, rule_format,
      OF conjI[OF no_empty_prefix_facts(6) no_empty_prefix_search(2)]]
  have a: "snd (on_input ''xa'' no_empty_prefix) = None"
    "map_option results (active (fst (on_input ''xa'' no_empty_prefix))) = Some [demo_item ''a'']"
    "selected (fst (on_input ''xa'' no_empty_prefix)) = \<lparr>el = None, sel_id = Some ''a'', idx = 0\<rparr>"
    using xa by (simp_all add: no_empty_prefix_facts(7) demo_item_def)
  have q: "snd (on_input ''xq'' no_empty_prefix) = None"
    "map_option results (active (fst (on_input ''xq'' no_empty_prefix))) = Some []"
    "selected (fst (on_input ''xq'' no_empty_prefix)) = \<lparr>el = None, sel_id = None, idx = - 1\<rparr>"
    using xq by (simp_all add: no_empty_prefix_facts(7))
  show ?thesis
    using sw a q
    by (simp add: commands_first_search commands_first_facts(1,3,4) no_empty_prefix_facts)
qed

subsection \<open>Item registry\<close>

lemma found_idx_None: "found_idx i xs = None \<longleftrightarrow> i \<notin> item_id ` set xs"
  by (induction xs) auto

lemma found_idx_Some:
  "found_idx i xs = Some n \<Longrightarrow> n < length xs \<and> item_id (xs ! n) = i \<and> (\<forall>j<n. item_id (xs ! j) \<noteq> i)"
proof (induction xs arbitrary: n)
  case Nil
  then show ?case by simp
next
  case (Cons x xs)
  show ?case
  proof (cases "item_id x = i")
    case True
    then show ?thesis using Cons.prems by simp
  next
    case False
    then obtain n' where n': "found_idx i xs = Some n'" "n = Suc n'"
      using Cons.prems by auto
    have ih: "n' < length xs \<and> item_id (xs ! n') = i \<and> (\<forall>j<n'. item_id (xs ! j) \<noteq> i)"
      using Cons.IH[OF n'(1)] .
    show ?thesis
      using ih False n'(2) by (auto simp: nth_Cons split: nat.splits)
  qed
qed


lemma get_mode_bindings:
  "get_mode (register_shortcut x s) k = get_mode s k"
  "get_mode (unregister_shortcut x s) k = get_mode s k"
  "get_mode (call_onUnregister x s) k = get_mode s k"
  by (simp_all add: register_shortcut_def unregister_shortcut_def call_onUnregister_def
      get_mode_def split: option.splits)

lemma modes_bindings:
  "modes (register_shortcut x s) = modes s"
  "modes (unregister_shortcut x s) = modes s"
  "modes (call_onUnregister x s) = modes s"
  "modes (select_first res s) = modes s"
  by (simp_all add: register_shortcut_def unregister_shortcut_def call_onUnregister_def
      select_first_def split: option.splits)

lemma ids_unique_modes: "modes s' = modes s \<Longrightarrow> ids_unique s' = ids_unique s"
  by (simp add: ids_unique_def)

lemma ids_unique_mode:
  assumes "ids_unique s" and "get_mode s k = Some m"
  shows "distinct (map item_id (rawAll m))"
proof -
  have "(k, m) \<in> set (modes s)" using assms(2) by (simp add: get_mode_def map_of_SomeD)
  then show ?thesis using assms(1) by (auto simp: ids_unique_def list_all_iff)
qed

lemma list_all_map_entry:
  assumes "list_all (\<lambda>km. P (snd km)) al"
    and "\<And>v. map_of al k = Some v \<Longrightarrow> P v \<Longrightarrow> P (f v)"
  shows "list_all (\<lambda>km. P (snd km)) (AList.map_entry k f al)"
  using assms
proof (induction al)
  case Nil
  then show ?case by simp
next
  case (Cons p al)
  show ?case
  proof (cases "fst p = k")
    case True
    then have "map_of (p # al) k = Some (snd p)" by (cases p) simp
    then have "P (f (snd p))" using Cons.prems by simp
    then show ?thesis using True Cons.prems(1) by simp
  next
    case False
    then have "\<And>v. map_of al k = Some v \<Longrightarrow> P v \<Longrightarrow> P (f v)"
      using Cons.prems(2) by (cases p) auto
    then have "list_all (\<lambda>km. P (snd km)) (AList.map_entry k f al)"
      using Cons.IH Cons.prems(1) by simp
    then show ?thesis using False Cons.prems(1) by simp
  qed
qed

lemma ids_unique_upd_mode:
  assumes "ids_unique s"
    and "\<And>m. get_mode s k = Some m \<Longrightarrow> distinct (map item_id (rawAll m)) \<Longrightarrow>
           distinct (map item_id (rawAll (f m)))"
  shows "ids_unique (upd_mode k f s)"
  using list_all_map_entry[of "\<lambda>m. distinct (map item_id (rawAll m))" "modes s" k f] assms
  by (simp add: ids_unique_def upd_mode_def get_mode_def)

lemma ids_unique_upd_same:
  assumes "ids_unique s" and "\<And>m. rawAll (f m) = rawAll m"
  shows "ids_unique (upd_mode k f s)"
  using assms by (intro ids_unique_upd_mode) simp_all

lemma distinct_splice: "distinct (map f xs) \<Longrightarrow> distinct (map f (js_splice1 xs i))"
proof -
  assume d: "distinct (map f xs)"
  have "map f xs = map f (take i xs) @ map f (drop i xs)"
    by (simp flip: map_append)
  then have "distinct (map f (take i xs) @ map f (drop i xs))" using d by simp
  moreover have "set (map f (drop (Suc i) xs)) \<subseteq> set (map f (drop i xs))"
    by (auto dest: in_set_dropD simp: set_drop_subset_set_drop image_mono)
  moreover have "distinct (map f (drop (Suc i) xs))"
    using d by (simp add: distinct_drop flip: drop_map)
  ultimately show ?thesis
    by (auto simp: js_splice1_def)
qed

lemma ids_unique_search_and_update: "ids_unique s \<Longrightarrow> ids_unique (fst (search_and_update q s))"
  by (auto simp: search_and_update_def upd_active_def ids_unique_upd_same
      ids_unique_modes[OF modes_bindings(4)] split: option.splits sum.splits)

lemma ids_unique_refresh: "ids_unique s \<Longrightarrow> ids_unique (fst (refresh_if_active k s))"
  by (auto simp: refresh_if_active_def update_results_def ids_unique_search_and_update
      split: option.splits)

lemma register_loop_ids_unique:
  "ids_unique s \<Longrightarrow> ids_unique (fst (register_loop k ov si batch ns rs s))"
proof (induction k ov si batch ns rs s rule: register_loop.induct)
  case (1 k override silent new_items removed_items s)
  then show ?case by simp
next
  case (2 k override silent unsafe_item rest new_items removed_items s)
  show ?case
  proof (cases "get_mode s k")
    case None
    then show ?thesis using "2.prems" by simp
  next
    case (Some m)
    let ?x = "cache_sort m unsafe_item"
    have dm: "distinct (map item_id (rawAll m))" using ids_unique_mode[OF "2.prems" Some] .
    show ?thesis
    proof (cases "found_idx (item_id ?x) (rawAll m)")
      case None
      let ?s' = "register_shortcut ?x
              (upd_mode k
                (\<lambda>m. m\<lparr>rawAll := rawAll m @ [?x], items := items m @ [Some ?x],
                         searcher := searcher_add ?x (searcher m)\<rparr>) s)"
      have "ids_unique ?s'"
        unfolding ids_unique_modes[OF modes_bindings(1)]
      proof (rule ids_unique_upd_mode[OF "2.prems"])
        fix m' assume "get_mode s k = Some m'" "distinct (map item_id (rawAll m'))"
        then show "distinct (map item_id (rawAll (m'\<lparr>rawAll := rawAll m' @ [?x],
            items := items m' @ [Some ?x], searcher := searcher_add ?x (searcher m')\<rparr>)))"
          using None Some by (auto simp: found_idx_None)
      qed
      then show ?thesis
        using "2.IH"(1)[OF Some refl None] Some None by (simp add: Let_def)
    next
      case (Some i)
      note fi = found_idx_Some[OF Some]
      show ?thesis
      proof (cases override)
        case True
        let ?xa = "rawAll m ! i"
        let ?s1 = "call_onUnregister ?xa (unregister_shortcut ?xa s)"
        let ?s2 = "upd_mode k
                  (\<lambda>m. m\<lparr>searcher := searcher_remove ?xa (searcher m),
                           rawAll := (rawAll m)[i := ?x]\<rparr>) ?s1"
        let ?s' = "upd_mode k
              (\<lambda>m. m\<lparr>items := js_assign (items m) i ?x,
                       searcher := searcher_add ?x (searcher m)\<rparr>)
              (register_shortcut ?x ?s2)"
        have u1: "ids_unique ?s1"
          using "2.prems" by (simp add: ids_unique_def modes_bindings)
        have g1: "get_mode ?s1 k = Some m"
          using \<open>get_mode s k = Some m\<close> by (simp add: get_mode_bindings)
        have u2: "ids_unique ?s2"
        proof (rule ids_unique_upd_mode[OF u1])
          fix m' assume "get_mode ?s1 k = Some m'" "distinct (map item_id (rawAll m'))"
          then have "m' = m" using g1 by simp
          have "map item_id ((rawAll m)[i := ?x]) = map item_id (rawAll m)"
            using fi by (simp add: map_update list_update_same_conv)
          then show "distinct (map item_id (rawAll (m'\<lparr>searcher := searcher_remove ?xa (searcher m'),
              rawAll := (rawAll m')[i := ?x]\<rparr>)))"
            using dm \<open>m' = m\<close> by simp
        qed
        have "ids_unique (register_shortcut ?x ?s2)"
          using u2 by (simp add: ids_unique_def modes_bindings)
        then have "ids_unique ?s'"
          by (rule ids_unique_upd_same) simp
        then show ?thesis
          using "2.IH"(2)[OF \<open>get_mode s k = Some m\<close> refl Some True refl]
            \<open>get_mode s k = Some m\<close> Some True
          by (simp add: Let_def)
      next
        case False
        show ?thesis
        proof (cases silent)
          case True
          then show ?thesis
            using "2.IH"(3)[OF \<open>get_mode s k = Some m\<close> refl Some False True] "2.prems"
              \<open>get_mode s k = Some m\<close> Some False
            by (simp add: Let_def)
        next
          case nosilent: False
          then show ?thesis
            using "2.prems" \<open>get_mode s k = Some m\<close> Some False by (simp add: Let_def)
        qed
      qed
    qed
  qed
qed

lemma ids_unique_removal:
  assumes "ids_unique s"
  shows "ids_unique
     (upd_mode k (\<lambda>m. m\<lparr>rawAllSorted := remove_by_id j (rawAllSorted m)\<rparr>)
        (call_onUnregister x
           (unregister_shortcut x
              (upd_mode k
                 (\<lambda>m. m\<lparr>rawAll := js_splice1 (rawAll m) i, items := js_splice1 (items m) i,
                        searcher := searcher_remove x (searcher m)\<rparr>) s))))"
proof -
  have "ids_unique (upd_mode k
                 (\<lambda>m. m\<lparr>rawAll := js_splice1 (rawAll m) i, items := js_splice1 (items m) i,
                        searcher := searcher_remove x (searcher m)\<rparr>) s)"
    by (rule ids_unique_upd_mode[OF assms]) (simp add: distinct_splice)
  then have "ids_unique (call_onUnregister x
           (unregister_shortcut x
              (upd_mode k
                 (\<lambda>m. m\<lparr>rawAll := js_splice1 (rawAll m) i, items := js_splice1 (items m) i,
                        searcher := searcher_remove x (searcher m)\<rparr>) s)))"
    by (simp add: ids_unique_def modes_bindings)
  then show ?thesis
    by (rule ids_unique_upd_same) simp
qed

lemma reverse_loop_ids_unique: "ids_unique s \<Longrightarrow> ids_unique (reverse_loop k ns s)"
proof (induction k ns s rule: reverse_loop.induct)
  case (1 k s)
  then show ?case by simp
next
  case (2 k new_item rest s)
  show ?case
  proof (cases "get_mode s k")
    case None
    then show ?thesis using "2.prems" by simp
  next
    case (Some m)
    show ?thesis
    proof (cases "found_idx (item_id new_item) (rawAll m)")
      case None
      then show ?thesis using "2.IH"(1)[OF Some None "2.prems"] Some by simp
    next
      case (Some i)
      show ?thesis
        using "2.IH"(2)[OF \<open>get_mode s k = Some m\<close> Some ids_unique_removal[OF "2.prems"]]
          \<open>get_mode s k = Some m\<close> Some
        by simp
    qed
  qed
qed

lemma remove_loop_ids_unique: "ids_unique s \<Longrightarrow> ids_unique (remove_loop k ns s)"
proof (induction k ns s rule: remove_loop.induct)
  case (1 k s)
  then show ?case by simp
next
  case (2 k i rest s)
  show ?case
  proof (cases "get_mode s k")
    case None
    then show ?thesis using "2.prems" by simp
  next
    case (Some m)
    show ?thesis
    proof (cases "js_index (rawAll m) (int i)")
      case None
      then show ?thesis using "2.prems" Some by simp
    next
      case (Some removed)
      show ?thesis
        using "2.IH"[OF \<open>get_mode s k = Some m\<close> Some ids_unique_removal[OF "2.prems"]]
          \<open>get_mode s k = Some m\<close> Some
        by simp
    qed
  qed
qed

lemma unregister_loop_ids_unique:
  "ids_unique s \<Longrightarrow> ids_unique (fst (unregister_loop k sel c s))"
proof (induction k sel c s rule: unregister_loop.induct)
  case (1 k removed_count s)
  then show ?case by simp
next
  case (2 k selector rest removed_count s)
  show ?case
  proof (cases "get_mode s k")
    case None
    then show ?thesis using "2.prems" by simp
  next
    case (Some m)
    show ?thesis
    proof (cases "length (to_remove selector (rawAll m)) = 0")
      case True
      then show ?thesis using "2.IH"(1)[OF Some refl True "2.prems"] Some by (simp add: Let_def)
    next
      case False
      then show ?thesis
        using "2.IH"(2)[OF Some refl False remove_loop_ids_unique[OF "2.prems"]] Some
        by (simp add: Let_def)
    qed
  qed
qed

lemma registry_step_ids_unique: "ids_unique s \<Longrightarrow> ids_unique (registry_step c s)"
proof (cases c)
  case (Register k item override silent)
  assume u: "ids_unique s"
  obtain s1 r where l: "register_loop k override silent item [] [] s = (s1, r)"
    by (cases "register_loop k override silent item [] [] s") auto
  have u1: "ids_unique s1" using register_loop_ids_unique[OF u, of k override silent item "[]" "[]"] l by simp
  have "ids_unique (fst (refresh_if_active k
            (upd_mode k (\<lambda>m. m\<lparr>rawAllSorted := sorted_view m (rawAll m)\<rparr>) s1)))"
    by (rule ids_unique_refresh, rule ids_unique_upd_same[OF u1]) simp
  then show ?thesis
    using Register u u1 l
    by (auto simp: registerItem_def register_item_def split: sum.splits prod.splits option.splits)
next
  case (Unregister k selector)
  assume u: "ids_unique s"
  obtain s1 c where l: "unregister_loop k selector 0 s = (s1, c)"
    by (cases "unregister_loop k selector 0 s") auto
  have u1: "ids_unique s1" using unregister_loop_ids_unique[OF u, of k selector 0] l by simp
  show ?thesis
    using Unregister u u1 l ids_unique_refresh[OF u1, of k]
    by (auto simp: unregisterItem_def unregister_item_def)
next
  case (Reverse k new_items)
  assume u: "ids_unique s"
  show ?thesis
    using Reverse u ids_unique_refresh[OF reverse_loop_ids_unique[OF u, of k new_items], of k]
    by (auto simp: reverse_register_def split: option.splits)
qed

text \<open>
  Claim C2, as the code has it. If, within every mode, the ids of the registered items are
  distinct (as they are when no item is registered yet), they still are after any sequence
  of calls of \<^verbatim>\<open>registerItem\<close>, \<^verbatim>\<open>unregisterItem\<close> and reversal callbacks, whether a call
  returns or throws.
\<close>

theorem ids_unique_within_mode:
  assumes "ids_unique s"
  shows "ids_unique (registry_run cs s) \<and>
         (\<forall>k m. get_mode (registry_run cs s) k = Some m \<longrightarrow> distinct (map item_id (rawAll m)))"
proof -
  have "ids_unique (registry_run cs s)"
    using assms
  proof (induction cs arbitrary: s)
    case Nil
    then show ?case by simp
  next
    case (Cons c cs)
    then show ?case using registry_step_ids_unique by simp
  qed
  then show ?thesis using ids_unique_mode by blast
qed

lemma lower_names: "toLowerCase ''One'' = ''one''" "toLowerCase ''Two'' = ''two''" "toLowerCase ''y'' = ''y''"
  by code_simp+


lemmas registry_eval =
  registerItem_def register_item_def unregisterItem_def unregister_item_def to_remove_def
  reverse_register_def refresh_if_active_def update_results_def sorted_view_def cache_sort_def
  register_shortcut_def unregister_shortcut_def call_onUnregister_def searcher_add_def
  searcher_remove_def js_splice1_def js_assign_def js_index_def

text \<open>
  Claim C2 as the spec states it fails: \<^verbatim>\<open>_register_item\<close> looks the id up in the \<^verbatim>\<open>rawAll\<close>
  of the one mode only. The same id registered in two modes, without override, is accepted
  twice, and the two modes then hold two different items with that id.
\<close>

theorem shared_id_counterexample:
  "snd (registerItem ''commands'' [x_one] False False two_modes) =
     Inr [x_one\<lparr>hcache_sort := ''one''\<rparr>] \<and>
   snd (registerItem ''pages'' [x_two] False False
          (fst (registerItem ''commands'' [x_one] False False two_modes))) =
     Inr [x_two\<lparr>hcache_sort := ''two''\<rparr>] \<and>
   map_option rawAll
     (get_mode (registry_run [Register ''commands'' [x_one] False False,
                              Register ''pages'' [x_two] False False] two_modes) ''commands'') =
     Some [x_one\<lparr>hcache_sort := ''one''\<rparr>] \<and>
   map_option rawAll
     (get_mode (registry_run [Register ''commands'' [x_one] False False,
                              Register ''pages'' [x_two] False False] two_modes) ''pages'') =
     Some [x_two\<lparr>hcache_sort := ''two''\<rparr>] \<and>
   item_id (x_one\<lparr>hcache_sort := ''one''\<rparr>) = item_id (x_two\<lparr>hcache_sort := ''two''\<rparr>) \<and>
   x_one\<lparr>hcache_sort := ''one''\<rparr> \<noteq> x_two\<lparr>hcache_sort := ''two''\<rparr>"
  by (simp add: two_modes_def x_one_def x_two_def registry_eval palette_eval lower_names)

lemma ids_unique_two_modes: "ids_unique two_modes"
  by (simp add: ids_unique_def two_modes_def demo_palette_def demo_mode_def)

lemma demo_calls_run:
  "map_option (\<lambda>m. map name (rawAll m)) (get_mode (registry_run demo_calls two_modes) ''commands'') =
     Some [''Two'']"
  "map_option (\<lambda>m. map name (rawAll m)) (get_mode (registry_run demo_calls two_modes) ''pages'') =
     Some [''One'']"
  by (simp_all add: demo_calls_def two_modes_def x_one_def x_two_def registry_eval palette_eval
      lower_names)

theorem ids_unique_within_mode_witness:
  "ids_unique two_modes \<and>
   ids_unique (registry_run demo_calls two_modes) \<and>
   map_option (\<lambda>m. map name (rawAll m)) (get_mode (registry_run demo_calls two_modes) ''commands'') =
     Some [''Two''] \<and>
   map_option (\<lambda>m. map name (rawAll m)) (get_mode (registry_run demo_calls two_modes) ''pages'') =
     Some [''One'']"
  using ids_unique_within_mode[OF ids_unique_two_modes, of demo_calls] demo_calls_run
    ids_unique_two_modes
  by simp

subsection \<open>Registration and its reversal\<close>






lemma sorted_by_filter: "sorted_by lc bs \<Longrightarrow> sorted_by lc (filter P bs)"
  by (induction bs) auto



































































subsection \<open>A registration that throws\<close>










end
